theory Spec2Isabelle
  imports Complex_Main "HOL-Library.Multiset" "HOL-Library.Sublist"
begin

section \<open>Data model (models.py)\<close>

text \<open>
  The pydantic models of \<^verbatim>\<open>models.py\<close>, one record per class and one datatype per
  enum. Python's \<^verbatim>\<open>int\<close> is \<^typ>\<open>int\<close>, \<^verbatim>\<open>Optional[T]\<close> is \<^typ>\<open>'a option\<close>.
  Strings are \<^typ>\<open>string\<close>; the development treats them as ASCII text.
  Several classes share field names, so selectors are written qualified
  (\<^verbatim>\<open>AstGrepFinding.file_path\<close>, \<^verbatim>\<open>CodeLocation.file_path\<close>).
\<close>

datatype RiskLevel = CRITICAL | HIGH | MEDIUM | LOW | INFO

datatype InputSource =
  HTTP_BODY | HTTP_HEADERS | URL_PARAMS | QUERY_PARAMS | PATH_PARAMS | GRAPHQL_ARGS
  | GRPC_REQUEST | WEBSOCKET | FILE_UPLOAD | COOKIES | UNKNOWN

datatype VulnerabilityType =
  SQL_INJECTION | XSS | COMMAND_INJECTION | PATH_TRAVERSAL | SSRF | XXE | DESERIALIZATION
  | IDOR | MASS_ASSIGNMENT | AUTHENTICATION_BYPASS | AUTHORIZATION_BYPASS | BUSINESS_LOGIC
  | OTHER

record SecurityConcern =
  vulnerability_type :: VulnerabilityType
  description :: string
  confidence :: real

record CodeLocation =
  file_path :: string
  line_number :: int
  column :: "int option"
  snippet :: "string option"

record FunctionAnalysis =
  function_name :: string
  location :: CodeLocation
  framework :: string
  language :: string
  input_sources :: "InputSource list"
  accepts_unauthenticated_input :: bool
  risk_level :: RiskLevel
  security_concerns :: "SecurityConcern list"
  endpoint_path :: "string option"
  http_methods :: "string list"
  has_input_validation :: "bool option"
  has_sanitization :: "bool option"
  has_authorization_check :: "bool option"
  reasoning :: string

record PrioritizedFindings =
  total_functions_analyzed :: int
  high_priority_count :: int
  findings :: "FunctionAnalysis list"
  summary :: string
  recommendations :: "string list"

record AstGrepFinding =
  file_path :: string
  line_number :: int
  column :: int
  rule_id :: string
  message :: string
  code_snippet :: string
  framework :: string
  language :: string

section \<open>Classification tiers (agent.py)\<close>

text \<open>
  The three pydantic-ai agents are external providers. A call may raise, and two calls
  with the same prompt may answer differently, so every call takes the state of the
  outside world \<open>'w\<close> and returns the new one together with either the exception or the
  parsed output. A prompt is an f-string over a fixed template; it is represented by the
  tuple of the values interpolated into the template, in the order they appear.
\<close>

datatype py_exception = Exception string | UnboundLocalError string

record QuickPrompt =
  qp_file_path :: string
  qp_framework :: string
  qp_language :: string
  qp_code_context :: string

record TriagePrompt =
  tp_file_path :: string
  tp_line_number :: int
  tp_framework :: string
  tp_language :: string
  tp_rule_id :: string
  tp_code_context :: string

record TopConcern =
  tc_index :: nat
  tc_function_name :: string
  tc_file_path :: string
  tc_line_number :: int
  tc_risk :: RiskLevel
  tc_concern_types :: "VulnerabilityType list"
  tc_auth_required :: bool

record SummaryPrompt =
  sp_total_items :: nat
  sp_real_handlers :: nat
  sp_false_positives :: nat
  sp_high_priority :: nat
  sp_critical :: nat
  sp_high :: nat
  sp_medium :: nat
  sp_low :: nat
  sp_info :: nat
  sp_top :: "TopConcern list"

record 'w SecurityTriageAgent =
  fast_filter_run :: "QuickPrompt \<Rightarrow> 'w \<Rightarrow> (py_exception + string) \<times> 'w"
  triage_agent_run :: "TriagePrompt \<Rightarrow> 'w \<Rightarrow> (py_exception + FunctionAnalysis) \<times> 'w"
  summary_agent_run :: "SummaryPrompt \<Rightarrow> 'w \<Rightarrow> (py_exception + PrioritizedFindings) \<times> 'w"

section \<open>Prioritization and summary (agent.py, prioritize\_findings)\<close>

fun risk_order :: "RiskLevel \<Rightarrow> nat" where
  "risk_order CRITICAL = 0"
| "risk_order HIGH = 1"
| "risk_order MEDIUM = 2"
| "risk_order LOW = 3"
| "risk_order INFO = 4"

text \<open>
  \<^verbatim>\<open>sum(1 for a in analyses if p(a))\<close> is the length of the filtered list.
\<close>

definition count_where :: "('a \<Rightarrow> bool) \<Rightarrow> 'a list \<Rightarrow> nat" where
  "count_where p xs = length (filter p xs)"

text \<open>
  \<^verbatim>\<open>_format_top_concerns\<close>: one entry per analysis, numbered from 1 by \<^verbatim>\<open>enumerate\<close>.
  The last component is the text after "Auth Required:", \<^verbatim>\<open>No\<close> (False) when the handler
  accepts unauthenticated input.
\<close>

definition format_top_concerns :: "FunctionAnalysis list \<Rightarrow> TopConcern list" where
  "format_top_concerns top_analyses =
     map (\<lambda>(i, analysis).
            \<lparr> tc_index = i,
              tc_function_name = function_name analysis,
              tc_file_path = CodeLocation.file_path (location analysis),
              tc_line_number = CodeLocation.line_number (location analysis),
              tc_risk = risk_level analysis,
              tc_concern_types = map vulnerability_type (security_concerns analysis),
              tc_auth_required = (\<not> accepts_unauthenticated_input analysis) \<rparr>)
         (zip [1 ..< Suc (length top_analyses)] top_analyses)"

text \<open>
  Python's \<^verbatim>\<open>sorted(analyses, key=...)\<close> is a stable sort by key; \<^const>\<open>sort_key\<close> is the
  stable sort by key of the list library (insertion sort), and a stable sort by key is a
  function of its input, so both compute the same list.
\<close>

definition sorted_analyses :: "FunctionAnalysis list \<Rightarrow> FunctionAnalysis list" where
  "sorted_analyses analyses = sort_key (\<lambda>x. risk_order (risk_level x)) analyses"

definition high_priority_count_of :: "FunctionAnalysis list \<Rightarrow> nat" where
  "high_priority_count_of analyses =
     count_where (\<lambda>a. risk_level a \<in> set [CRITICAL, HIGH]) analyses"

definition summary_prompt :: "FunctionAnalysis list \<Rightarrow> SummaryPrompt" where
  "summary_prompt analyses =
     (let real_handlers = filter (\<lambda>a. risk_level a \<noteq> INFO) analyses;
          false_positives = filter (\<lambda>a. risk_level a = INFO) analyses
      in \<lparr> sp_total_items = length analyses,
           sp_real_handlers = length real_handlers,
           sp_false_positives = length false_positives,
           sp_high_priority = high_priority_count_of analyses,
           sp_critical = count_where (\<lambda>a. risk_level a = CRITICAL) analyses,
           sp_high = count_where (\<lambda>a. risk_level a = HIGH) analyses,
           sp_medium = count_where (\<lambda>a. risk_level a = MEDIUM) analyses,
           sp_low = count_where (\<lambda>a. risk_level a = LOW) analyses,
           sp_info = count_where (\<lambda>a. risk_level a = INFO) analyses,
           sp_top = format_top_concerns (take 10 (sorted_analyses analyses)) \<rparr>)"

text \<open>
  \<^verbatim>\<open>prioritize_findings\<close>: the call of the summary agent is outside any
  \<^verbatim>\<open>try\<close>, so its exception is the function's exception.
\<close>

definition prioritize_findings ::
  "'w SecurityTriageAgent \<Rightarrow> FunctionAnalysis list \<Rightarrow> 'w
     \<Rightarrow> (py_exception + PrioritizedFindings) \<times> 'w" where
  "prioritize_findings agent analyses w =
     (case summary_agent_run agent (summary_prompt analyses) w of
        (Inl e, w') \<Rightarrow> (Inl e, w')
      | (Inr output, w') \<Rightarrow>
          (Inr \<lparr> total_functions_analyzed = int (length analyses),
                 high_priority_count = int (high_priority_count_of analyses),
                 findings = sorted_analyses analyses,
                 summary = summary output,
                 recommendations = recommendations output \<rparr>, w'))"

section \<open>Python string operations\<close>

text \<open>
  \<^verbatim>\<open>str.upper\<close>, \<^verbatim>\<open>str.lower\<close> and \<^verbatim>\<open>str.strip\<close> on ASCII text. \<^verbatim>\<open>a.startswith(b)\<close> is
  \<^term>\<open>prefix b a\<close> and \<^verbatim>\<open>b in a\<close> on strings is \<^term>\<open>sublist b a\<close>.
\<close>

definition upper_char :: "char \<Rightarrow> char" where
  "upper_char c =
     (if 97 \<le> (of_char c :: nat) \<and> (of_char c :: nat) \<le> 122
      then char_of ((of_char c :: nat) - 32) else c)"

definition lower_char :: "char \<Rightarrow> char" where
  "lower_char c =
     (if 65 \<le> (of_char c :: nat) \<and> (of_char c :: nat) \<le> 90
      then char_of ((of_char c :: nat) + 32) else c)"

definition upper :: "string \<Rightarrow> string" where
  "upper s = map upper_char s"

definition lower :: "string \<Rightarrow> string" where
  "lower s = map lower_char s"

definition is_space :: "char \<Rightarrow> bool" where
  "is_space c = ((9 \<le> (of_char c :: nat) \<and> (of_char c :: nat) \<le> 13)
                 \<or> (28 \<le> (of_char c :: nat) \<and> (of_char c :: nat) \<le> 32))"

definition strip_chars :: "(char \<Rightarrow> bool) \<Rightarrow> string \<Rightarrow> string" where
  "strip_chars p s = rev (dropWhile p (rev (dropWhile p s)))"

definition strip :: "string \<Rightarrow> string" where
  "strip s = strip_chars is_space s"

definition replace_char :: "char \<Rightarrow> char \<Rightarrow> string \<Rightarrow> string" where
  "replace_char old new s = map (\<lambda>c. if c = old then new else c) s"

fun split_on :: "char \<Rightarrow> string \<Rightarrow> string list" where
  "split_on sep [] = [[]]"
| "split_on sep (c # cs) =
     (if c = sep then [] # split_on sep cs
      else (case split_on sep cs of
              [] \<Rightarrow> [[c]]
            | part # parts \<Rightarrow> (c # part) # parts))"

text \<open>\<^verbatim>\<open>str(n)\<close> for an integer: decimal digits, with a leading minus sign.\<close>

definition digit_char :: "nat \<Rightarrow> char" where
  "digit_char d = char_of (48 + d)"

function str_nat :: "nat \<Rightarrow> string" where
  "str_nat n = (if n < 10 then [digit_char n] else str_nat (n div 10) @ [digit_char (n mod 10)])"
  by pat_completeness auto
termination
  by (relation "measure id") auto

declare str_nat.simps [simp del]

definition str_int :: "int \<Rightarrow> string" where
  "str_int i = (if i < 0 then CHR ''-'' # str_nat (nat (- i)) else str_nat (nat i))"

section \<open>Triage pipeline (agent.py)\<close>

text \<open>
  \<^verbatim>\<open>fast_check_false_positive\<close>: the whole call is inside \<^verbatim>\<open>try ... except Exception\<close>
  and the handler returns \<^verbatim>\<open>False\<close>.
\<close>

definition quick_prompt :: "AstGrepFinding \<Rightarrow> string \<Rightarrow> QuickPrompt" where
  "quick_prompt finding code_context =
     \<lparr> qp_file_path = AstGrepFinding.file_path finding,
       qp_framework = AstGrepFinding.framework finding,
       qp_language = AstGrepFinding.language finding,
       qp_code_context = take 500 code_context \<rparr>"

definition fast_check_false_positive ::
  "'w SecurityTriageAgent \<Rightarrow> AstGrepFinding \<Rightarrow> string \<Rightarrow> 'w \<Rightarrow> bool \<times> 'w" where
  "fast_check_false_positive agent finding code_context w =
     (case fast_filter_run agent (quick_prompt finding code_context) w of
        (Inr output, w') \<Rightarrow>
          (let response = upper (strip output)
           in (sublist ''FALSE_POSITIVE'' response \<or> sublist ''FALSE'' response, w'))
      | (Inl e, w') \<Rightarrow> (False, w'))"

text \<open>\<^verbatim>\<open>triage_function\<close> has no \<^verbatim>\<open>try\<close>: an exception of the provider is its own.\<close>

definition triage_prompt :: "AstGrepFinding \<Rightarrow> string \<Rightarrow> TriagePrompt" where
  "triage_prompt finding code_context =
     \<lparr> tp_file_path = AstGrepFinding.file_path finding,
       tp_line_number = AstGrepFinding.line_number finding,
       tp_framework = AstGrepFinding.framework finding,
       tp_language = AstGrepFinding.language finding,
       tp_rule_id = rule_id finding,
       tp_code_context = code_context \<rparr>"

definition triage_function ::
  "'w SecurityTriageAgent \<Rightarrow> AstGrepFinding \<Rightarrow> string \<Rightarrow> 'w
     \<Rightarrow> (py_exception + FunctionAnalysis) \<times> 'w" where
  "triage_function agent finding code_context w =
     triage_agent_run agent (triage_prompt finding code_context) w"

text \<open>
  What the loops print for each Finding, in order. The texts are the same in the batch
  and in the streaming loop.
\<close>

datatype printed =
  Scanning nat nat string int
  | CouldNotRead
  | FalsePositiveFast
  | RealHandler RiskLevel string
  | FalsePositiveDetailed
  | Error py_exception
  | ReachedQuota int

text \<open>
  The quota test \<^verbatim>\<open>max_real_handlers and real_handler_count >= max_real_handlers\<close>:
  \<^verbatim>\<open>None\<close> and \<^verbatim>\<open>0\<close> are both falsy.
\<close>

definition quota_reached :: "int option \<Rightarrow> nat \<Rightarrow> bool" where
  "quota_reached max_real_handlers real_handler_count =
     (case max_real_handlers of
        None \<Rightarrow> False
      | Some m \<Rightarrow> m \<noteq> 0 \<and> int real_handler_count \<ge> m)"

type_synonym 'w code_reader = "string \<Rightarrow> int \<Rightarrow> 'w \<Rightarrow> string option \<times> 'w"

subsection \<open>Batch: triage\_all\_findings\<close>

text \<open>
  The local variables of \<^verbatim>\<open>triage_all_findings\<close>, with the lines printed so far and the
  outside world (fields prefixed \<open>b_\<close>). \<open>b_i\<close> is the loop variable \<open>i\<close>, unbound (\<open>None\<close>) until the first iteration.
\<close>

record 'w batch_locals =
  b_analyses :: "FunctionAnalysis list"
  b_real_handler_count :: nat
  b_fast_filtered_count :: nat
  b_i :: "nat option"
  b_stdout :: "printed list"
  b_world :: 'w

text \<open>The body of the \<^verbatim>\<open>for\<close> loop after the quota test.\<close>

definition batch_body ::
  "'w SecurityTriageAgent \<Rightarrow> 'w code_reader \<Rightarrow> nat \<Rightarrow> nat \<Rightarrow> AstGrepFinding
     \<Rightarrow> 'w batch_locals \<Rightarrow> 'w batch_locals" where
  "batch_body agent code_reader n idx finding s0 =
     (let s = s0\<lparr> b_stdout := b_stdout s0 @
                 [Scanning idx n (AstGrepFinding.file_path finding)
                    (AstGrepFinding.line_number finding)] \<rparr>;
          skip = (\<lambda>w1. s\<lparr> b_world := w1,
                           b_stdout := b_stdout s @ [CouldNotRead] \<rparr>)
      in case code_reader (AstGrepFinding.file_path finding)
                (AstGrepFinding.line_number finding) (b_world s) of
           (None, w1) \<Rightarrow> skip w1
         | (Some code_context, w1) \<Rightarrow>
             if code_context = [] then skip w1
             else (case fast_check_false_positive agent finding code_context w1 of
               (is_false_positive, w2) \<Rightarrow>
                 if is_false_positive
                 then s\<lparr> b_fast_filtered_count := b_fast_filtered_count s + 1,
                         b_world := w2,
                         b_stdout := b_stdout s @ [FalsePositiveFast] \<rparr>
                 else (case triage_function agent finding code_context w2 of
                   (Inl e, w3) \<Rightarrow>
                     s\<lparr> b_world := w3,
                        b_stdout := b_stdout s @ [Error e] \<rparr>
                 | (Inr analysis, w3) \<Rightarrow>
                     (let s1 = s\<lparr> b_analyses := b_analyses s @ [analysis],
                                    b_world := w3 \<rparr>
                      in if risk_level analysis \<noteq> INFO
                         then s1\<lparr> b_real_handler_count :=
                                     b_real_handler_count s1 + 1,
                                   b_stdout := b_stdout s1 @
                                     [RealHandler (risk_level analysis) (function_name analysis)] \<rparr>
                         else s1\<lparr> b_stdout :=
                                     b_stdout s1 @ [FalsePositiveDetailed] \<rparr>))))"

text \<open>
  \<^verbatim>\<open>for i, finding in enumerate(findings, 1)\<close>: \<open>idx\<close> is the value \<open>i\<close> gets in this
  iteration, \<open>n\<close> is \<^verbatim>\<open>len(findings)\<close>. The quota test comes first and \<^verbatim>\<open>break\<close>s.
\<close>

fun batch_loop ::
  "'w SecurityTriageAgent \<Rightarrow> 'w code_reader \<Rightarrow> int option \<Rightarrow> nat \<Rightarrow> nat
     \<Rightarrow> AstGrepFinding list \<Rightarrow> 'w batch_locals \<Rightarrow> 'w batch_locals" where
  "batch_loop agent code_reader max_real_handlers n idx [] s = s"
| "batch_loop agent code_reader max_real_handlers n idx (finding # rest) s =
     (if quota_reached max_real_handlers (b_real_handler_count s)
      then s\<lparr> b_i := Some idx,
              b_stdout := b_stdout s @
                [ReachedQuota (case max_real_handlers of Some m \<Rightarrow> m | None \<Rightarrow> 0)] \<rparr>
      else batch_loop agent code_reader max_real_handlers n (Suc idx) rest
             (batch_body agent code_reader n idx finding (s\<lparr> b_i := Some idx \<rparr>)))"

definition batch_init :: "'w \<Rightarrow> 'w batch_locals" where
  "batch_init w =
     \<lparr> b_analyses = [], b_real_handler_count = 0, b_fast_filtered_count = 0, b_i = None,
       b_stdout = [], b_world = w \<rparr>"

definition batch_run ::
  "'w SecurityTriageAgent \<Rightarrow> AstGrepFinding list \<Rightarrow> 'w code_reader \<Rightarrow> int option \<Rightarrow> 'w
     \<Rightarrow> 'w batch_locals" where
  "batch_run agent finding_list code_reader max_real_handlers w =
     batch_loop agent code_reader max_real_handlers (length finding_list) 1 finding_list
       (batch_init w)"

text \<open>
  After the loop the summary prints \<^verbatim>\<open>Total scanned: {i} files\<close>. With an empty list of
  findings \<open>i\<close> was never bound and Python raises \<^verbatim>\<open>UnboundLocalError\<close>; otherwise the
  accumulated analyses go to \<^verbatim>\<open>prioritize_findings\<close>.
\<close>

definition triage_all_findings ::
  "'w SecurityTriageAgent \<Rightarrow> AstGrepFinding list \<Rightarrow> 'w code_reader \<Rightarrow> int option \<Rightarrow> 'w
     \<Rightarrow> (py_exception + PrioritizedFindings) \<times> 'w" where
  "triage_all_findings agent finding_list code_reader max_real_handlers w =
     (let s = batch_run agent finding_list code_reader max_real_handlers w
      in case b_i s of
           None \<Rightarrow> (Inl (UnboundLocalError ''i''), b_world s)
         | Some _ \<Rightarrow> prioritize_findings agent (b_analyses s) (b_world s))"

subsection \<open>Streaming: triage\_all\_findings\_streaming\<close>

text \<open>
  The local variables of the async generator (fields prefixed \<open>s_\<close>), the analyses it
  has yielded so far in order, the lines printed and the outside world.
\<close>

record 'w streaming_locals =
  s_real_handler_count :: nat
  s_fast_filtered_count :: nat
  s_total_analyzed :: nat
  s_i :: "nat option"
  s_yielded :: "FunctionAnalysis list"
  s_stdout :: "printed list"
  s_world :: 'w

definition streaming_body ::
  "'w SecurityTriageAgent \<Rightarrow> 'w code_reader \<Rightarrow> nat \<Rightarrow> nat \<Rightarrow> AstGrepFinding
     \<Rightarrow> 'w streaming_locals \<Rightarrow> 'w streaming_locals" where
  "streaming_body agent code_reader n idx finding s0 =
     (let s = s0\<lparr> s_stdout := s_stdout s0 @
                 [Scanning idx n (AstGrepFinding.file_path finding)
                    (AstGrepFinding.line_number finding)] \<rparr>;
          skip = (\<lambda>w1. s\<lparr> s_world := w1, s_stdout := s_stdout s @ [CouldNotRead] \<rparr>)
      in case code_reader (AstGrepFinding.file_path finding)
                (AstGrepFinding.line_number finding) (s_world s) of
           (None, w1) \<Rightarrow> skip w1
         | (Some code_context, w1) \<Rightarrow>
             if code_context = [] then skip w1
             else (case fast_check_false_positive agent finding code_context w1 of
               (is_false_positive, w2) \<Rightarrow>
                 if is_false_positive
                 then s\<lparr> s_fast_filtered_count := s_fast_filtered_count s + 1,
                         s_world := w2,
                         s_stdout := s_stdout s @ [FalsePositiveFast] \<rparr>
                 else (case triage_function agent finding code_context w2 of
                   (Inl e, w3) \<Rightarrow>
                     s\<lparr> s_world := w3, s_stdout := s_stdout s @ [Error e] \<rparr>
                 | (Inr analysis, w3) \<Rightarrow>
                     (let s1 = s\<lparr> s_total_analyzed := s_total_analyzed s + 1, s_world := w3 \<rparr>;
                          s2 = (if risk_level analysis \<noteq> INFO
                                then s1\<lparr> s_real_handler_count := s_real_handler_count s1 + 1,
                                          s_stdout := s_stdout s1 @
                                            [RealHandler (risk_level analysis)
                                               (function_name analysis)] \<rparr>
                                else s1\<lparr> s_stdout := s_stdout s1 @ [FalsePositiveDetailed] \<rparr>)
                      in s2\<lparr> s_yielded := s_yielded s2 @ [analysis] \<rparr>))))"

fun streaming_loop ::
  "'w SecurityTriageAgent \<Rightarrow> 'w code_reader \<Rightarrow> int option \<Rightarrow> nat \<Rightarrow> nat
     \<Rightarrow> AstGrepFinding list \<Rightarrow> 'w streaming_locals \<Rightarrow> 'w streaming_locals" where
  "streaming_loop agent code_reader max_real_handlers n idx [] s = s"
| "streaming_loop agent code_reader max_real_handlers n idx (finding # rest) s =
     (if quota_reached max_real_handlers (s_real_handler_count s)
      then s\<lparr> s_i := Some idx,
              s_stdout := s_stdout s @
                [ReachedQuota (case max_real_handlers of Some m \<Rightarrow> m | None \<Rightarrow> 0)] \<rparr>
      else streaming_loop agent code_reader max_real_handlers n (Suc idx) rest
             (streaming_body agent code_reader n idx finding (s\<lparr> s_i := Some idx \<rparr>)))"

definition streaming_init :: "'w \<Rightarrow> 'w streaming_locals" where
  "streaming_init w =
     \<lparr> s_real_handler_count = 0, s_fast_filtered_count = 0, s_total_analyzed = 0,
       s_i = None, s_yielded = [], s_stdout = [], s_world = w \<rparr>"

definition streaming_run ::
  "'w SecurityTriageAgent \<Rightarrow> AstGrepFinding list \<Rightarrow> 'w code_reader \<Rightarrow> int option \<Rightarrow> 'w
     \<Rightarrow> 'w streaming_locals" where
  "streaming_run agent finding_list code_reader max_real_handlers w =
     streaming_loop agent code_reader max_real_handlers (length finding_list) 1 finding_list
       (streaming_init w)"

text \<open>
  What a consumer that exhausts the generator sees: the analyses yielded, in order, and
  how the generator ends: normally, or with \<^verbatim>\<open>UnboundLocalError\<close> from the final
  summary when the list of findings was empty.
\<close>

definition triage_all_findings_streaming ::
  "'w SecurityTriageAgent \<Rightarrow> AstGrepFinding list \<Rightarrow> 'w code_reader \<Rightarrow> int option \<Rightarrow> 'w
     \<Rightarrow> FunctionAnalysis list \<times> py_exception option \<times> 'w" where
  "triage_all_findings_streaming agent finding_list code_reader max_real_handlers w =
     (let s = streaming_run agent finding_list code_reader max_real_handlers w
      in (s_yielded s,
          (case s_i s of None \<Rightarrow> Some (UnboundLocalError ''i'') | Some _ \<Rightarrow> None),
          s_world s))"

section \<open>Deployment context resolver (deployment\_parser.py)\<close>

text \<open>
  The parser reads the deployment model as raw JSON and looks keys up with
  \<^verbatim>\<open>dict.get\<close>, so every key may be absent (\<open>None\<close>). Only the keys the parser reads are
  kept. \<^verbatim>\<open>services\<close> is a dict in document order: an association list.
\<close>

record ServiceInfo =
  name :: "string option"
  network_exposure :: "string option"
  deployment_target :: "string option"
  upstream_services :: "string list option"
  downstream_services :: "string list option"
  repository_paths :: "string list option"

record TrustZone =
  name :: "string option"
  services :: "string list option"

record CommunicationProtocol =
  from_service :: "string option"
  auth_method :: "string option"

record DeploymentModel =
  services :: "(string \<times> ServiceInfo) list"
  trust_zones :: "TrustZone list"
  communications :: "CommunicationProtocol list"
  user_authentication_method :: "string option"

text \<open>
  Modelled from the spec: the class \<^verbatim>\<open>DeploymentContext\<close>, which
  \<^verbatim>\<open>deployment_parser.py\<close> imports from \<^verbatim>\<open>models.py\<close> and which is missing there. The
  fields are those the spec lists (section 3) and the constructor call in
  \<^verbatim>\<open>get_deployment_context\<close> fills.
\<close>

record DeploymentContext =
  service_name :: string
  trust_zone :: "string option"
  network_exposure :: string
  authentication_method :: "string option"
  deployment_target :: "string option"
  upstream_services :: "string list"
  downstream_services :: "string list"

text \<open>\<^verbatim>\<open>d.get(key, default)\<close>\<close>

definition get_or :: "'a option \<Rightarrow> 'a \<Rightarrow> 'a" where
  "get_or v dflt = (case v of None \<Rightarrow> dflt | Some x \<Rightarrow> x)"

definition normalize_file_path :: "string \<Rightarrow> string" where
  "normalize_file_path path = lower (replace_char (CHR 0x5C) CHR ''/'' path)"

definition normalize_repo_path :: "string \<Rightarrow> string" where
  "normalize_repo_path repo_path =
     strip_chars (\<lambda>c. c = CHR ''/'') (lower (replace_char (CHR 0x5C) CHR ''/'' repo_path))"

text \<open>
  The state of the search: \<^verbatim>\<open>(matched_service_name, matched_service)\<close> and
  \<^verbatim>\<open>best_match_length\<close>.
\<close>

type_synonym match_state = "(string \<times> ServiceInfo) option \<times> nat"

text \<open>The body of the inner loop: the three strategies, an \<^verbatim>\<open>if/elif/elif\<close> chain.\<close>

definition try_repo_path ::
  "string \<Rightarrow> string list \<Rightarrow> string \<Rightarrow> ServiceInfo \<Rightarrow> match_state \<Rightarrow> string \<Rightarrow> match_state" where
  "try_repo_path normalized_path path_parts svc_name svc_info st repo_path =
     (let normalized_repo_path = normalize_repo_path repo_path;
          best_match_length = snd st
      in if prefix (normalized_repo_path @ ''/'') normalized_path then
           (let match_length = length normalized_repo_path
            in if match_length > best_match_length
               then (Some (svc_name, svc_info), match_length) else st)
         else if sublist (''/'' @ normalized_repo_path @ ''/'') normalized_path then
           (let match_length = length normalized_repo_path
            in if match_length > best_match_length
               then (Some (svc_name, svc_info), match_length) else st)
         else if normalized_repo_path \<in> set path_parts then
           (let match_length = length normalized_repo_path
            in if match_length > best_match_length
               then (Some (svc_name, svc_info), match_length) else st)
         else st)"

definition match_service :: "(string \<times> ServiceInfo) list \<Rightarrow> string \<Rightarrow> match_state" where
  "match_service svcs path =
     (let normalized_path = normalize_file_path path;
          path_parts = split_on CHR ''/'' normalized_path
      in foldl (\<lambda>st (svc_name, svc_info).
                  foldl (try_repo_path normalized_path path_parts svc_name svc_info) st
                    (get_or (repository_paths svc_info) []))
           (None, 0) svcs)"

text \<open>
  The loop over the trust zones: the \<^verbatim>\<open>name\<close> of the first zone that lists the
  service, then \<^verbatim>\<open>break\<close>.
\<close>

fun find_trust_zone :: "TrustZone list \<Rightarrow> string \<Rightarrow> string option" where
  "find_trust_zone [] matched_service_name = None"
| "find_trust_zone (zone # rest) matched_service_name =
     (if matched_service_name \<in> set (get_or (TrustZone.services zone) [])
      then TrustZone.name zone
      else find_trust_zone rest matched_service_name)"

text \<open>
  The loop over the communications: the \<^verbatim>\<open>auth_method\<close> of the first record whose
  \<^verbatim>\<open>from_service\<close> is the service, then \<^verbatim>\<open>break\<close>.
\<close>

fun service_auth_method :: "CommunicationProtocol list \<Rightarrow> string \<Rightarrow> string option" where
  "service_auth_method [] matched_service_name = None"
| "service_auth_method (comm # rest) matched_service_name =
     (if from_service comm = Some matched_service_name
      then CommunicationProtocol.auth_method comm
      else service_auth_method rest matched_service_name)"

text \<open>Python truthiness of an optional string: \<^verbatim>\<open>None\<close> and \<^verbatim>\<open>""\<close> are falsy.\<close>

definition truthy :: "string option \<Rightarrow> bool" where
  "truthy v = (case v of None \<Rightarrow> False | Some x \<Rightarrow> x \<noteq> [])"

definition find_auth_method :: "DeploymentModel \<Rightarrow> string \<Rightarrow> string option" where
  "find_auth_method model matched_service_name =
     (let auth_method = service_auth_method (communications model) matched_service_name
      in if \<not> truthy auth_method then user_authentication_method model else auth_method)"

text \<open>The \<^verbatim>\<open>DeploymentContext(...)\<close> built for the matched service.\<close>

definition deployment_context_for ::
  "DeploymentModel \<Rightarrow> string \<Rightarrow> ServiceInfo \<Rightarrow> DeploymentContext" where
  "deployment_context_for model matched_service_name matched_service =
     \<lparr> service_name = get_or (ServiceInfo.name matched_service) matched_service_name,
       trust_zone = find_trust_zone (trust_zones model) matched_service_name,
       network_exposure =
         get_or (ServiceInfo.network_exposure matched_service) ''Internal only'',
       authentication_method = find_auth_method model matched_service_name,
       deployment_target = ServiceInfo.deployment_target matched_service,
       upstream_services = get_or (ServiceInfo.upstream_services matched_service) [],
       downstream_services = get_or (ServiceInfo.downstream_services matched_service) [] \<rparr>"

text \<open>
  \<^verbatim>\<open>get_deployment_context\<close>. A matched service is a dict that has the key
  \<^verbatim>\<open>repository_paths\<close>, so \<^verbatim>\<open>not matched_service\<close> holds only when nothing matched.
\<close>

definition get_deployment_context :: "DeploymentModel \<Rightarrow> string \<Rightarrow> DeploymentContext option" where
  "get_deployment_context model path =
     (if DeploymentModel.services model = [] then None
      else case fst (match_service (DeploymentModel.services model) path) of
        None \<Rightarrow> None
      | Some (matched_service_name, matched_service) \<Rightarrow>
          Some (deployment_context_for model matched_service_name matched_service))"

section \<open>Deduplication (analyze.py, main)\<close>

definition location_key :: "AstGrepFinding \<Rightarrow> string" where
  "location_key finding =
     AstGrepFinding.file_path finding @ '':'' @ str_int (AstGrepFinding.line_number finding)"

text \<open>
  The loop over the scan's findings; the state is \<^verbatim>\<open>seen_locations\<close>,
  \<^verbatim>\<open>unique_findings\<close> and \<^verbatim>\<open>duplicates_removed\<close>.
\<close>

fun dedup_loop ::
  "AstGrepFinding list \<Rightarrow> string set \<times> AstGrepFinding list \<times> nat
     \<Rightarrow> string set \<times> AstGrepFinding list \<times> nat" where
  "dedup_loop [] st = st"
| "dedup_loop (finding # rest) (seen_locations, unique_findings, duplicates_removed) =
     (if location_key finding \<notin> seen_locations
      then dedup_loop rest
             (insert (location_key finding) seen_locations, unique_findings @ [finding],
              duplicates_removed)
      else dedup_loop rest (seen_locations, unique_findings, duplicates_removed + 1))"

definition deduplicate :: "AstGrepFinding list \<Rightarrow> AstGrepFinding list \<times> nat" where
  "deduplicate finding_list =
     (case dedup_loop finding_list ({}, [], 0) of
        (seen_locations, unique_findings, duplicates_removed) \<Rightarrow>
          (unique_findings, duplicates_removed))"

section \<open>The resolver's matching rule, as the specification words it\<close>

text \<open>
  A normalized fragment matches a normalized path by one of three strategies: the path
  starts with the fragment and a separator, the fragment occurs between separators, or the
  fragment is one of the path's segments.
\<close>

definition fragment_matches :: "string \<Rightarrow> string \<Rightarrow> bool" where
  "fragment_matches p r \<longleftrightarrow>
     prefix (r @ ''/'') p \<or> sublist (''/'' @ r @ ''/'') p \<or> r \<in> set (split_on CHR ''/'' p)"

text \<open>
  Every declared fragment, normalized, with its service, in declaration order; and those
  of them that match a path and are not empty.
\<close>

definition declared_fragments ::
  "(string \<times> ServiceInfo) list \<Rightarrow> (string \<times> ServiceInfo \<times> string) list" where
  "declared_fragments svcs =
     concat (map (\<lambda>(svc_name, svc_info).
                    map (\<lambda>repo_path. (svc_name, svc_info, normalize_repo_path repo_path))
                      (get_or (repository_paths svc_info) []))
               svcs)"

definition frag_len :: "string \<times> ServiceInfo \<times> string \<Rightarrow> nat" where
  "frag_len c = length (snd (snd c))"

definition matched_fragments ::
  "(string \<times> ServiceInfo) list \<Rightarrow> string \<Rightarrow> (string \<times> ServiceInfo \<times> string) list" where
  "matched_fragments svcs path =
     filter (\<lambda>c. fragment_matches (normalize_file_path path) (snd (snd c)) \<and> snd (snd c) \<noteq> [])
       (declared_fragments svcs)"

section \<open>Deduplication, as the specification words it\<close>

text \<open>The identity of a finding, and the value of a string of decimal digits.\<close>

definition identity :: "AstGrepFinding \<Rightarrow> string \<times> int" where
  "identity finding = (AstGrepFinding.file_path finding, AstGrepFinding.line_number finding)"

definition digits_val :: "string \<Rightarrow> nat" where
  "digits_val ds = foldl (\<lambda>acc c. 10 * acc + ((of_char c :: nat) - 48)) 0 ds"

text \<open>The findings of a list whose key is neither in \<open>seen\<close> nor carried by an earlier one.\<close>

fun first_seen :: "string set \<Rightarrow> AstGrepFinding list \<Rightarrow> AstGrepFinding list" where
  "first_seen seen [] = []"
| "first_seen seen (finding # rest) =
     (if location_key finding \<in> seen then first_seen seen rest
      else finding # first_seen (insert (location_key finding) seen) rest)"

section \<open>Comparing the two loops\<close>

text \<open>
  The streaming generator's variables as they are determined by the batch function's:
  the analyses accumulated are the analyses yielded, and \<^verbatim>\<open>total_analyzed\<close> is their
  number.
\<close>

definition streaming_view :: "'w batch_locals \<Rightarrow> 'w streaming_locals" where
  "streaming_view b =
     \<lparr> s_real_handler_count = b_real_handler_count b,
       s_fast_filtered_count = b_fast_filtered_count b,
       s_total_analyzed = length (b_analyses b),
       s_i = b_i b,
       s_yielded = b_analyses b,
       s_stdout = b_stdout b,
       s_world = b_world b \<rparr>"



text \<open>
  The unlimited run (no quota) of the batch loop over the first \<open>k\<close> findings of a list,
  numbered as in the run over the whole list.
\<close>

definition batch_prefix_run ::
  "'w SecurityTriageAgent \<Rightarrow> AstGrepFinding list \<Rightarrow> 'w code_reader \<Rightarrow> nat \<Rightarrow> 'w
     \<Rightarrow> 'w batch_locals" where
  "batch_prefix_run agent finding_list code_reader k w =
     batch_loop agent code_reader None (length finding_list) 1 (take k finding_list)
       (batch_init w)"

section \<open>Example inputs\<close>

text \<open>
  Concrete inputs on which the theorems below are instantiated. The example world is a
  counter of the calls made to the outside (code reader and providers).
\<close>

definition mk_analysis :: "string \<Rightarrow> RiskLevel \<Rightarrow> FunctionAnalysis" where
  "mk_analysis nm r =
     \<lparr> function_name = nm,
       location = \<lparr> CodeLocation.file_path = ''app/api/users.py'', CodeLocation.line_number = 10,
                    CodeLocation.column = None, snippet = None \<rparr>,
       FunctionAnalysis.framework = ''fastapi'', FunctionAnalysis.language = ''python'',
       input_sources = [], accepts_unauthenticated_input = False, risk_level = r,
       security_concerns = [], endpoint_path = None, http_methods = [],
       has_input_validation = None, has_sanitization = None, has_authorization_check = None,
       reasoning = ''triaged'' \<rparr>"

definition mk_finding :: "string \<Rightarrow> int \<Rightarrow> AstGrepFinding" where
  "mk_finding p l =
     \<lparr> AstGrepFinding.file_path = p, AstGrepFinding.line_number = l,
       AstGrepFinding.column = 0, rule_id = ''fastapi-route'', message = [],
       code_snippet = [], AstGrepFinding.framework = ''fastapi'',
       AstGrepFinding.language = ''python'' \<rparr>"

definition example_reader :: "nat code_reader" where
  "example_reader p l w = (if p = ''missing.py'' then None else Some ''def handler(): pass'', Suc w)"

definition example_summary :: "string \<Rightarrow> PrioritizedFindings" where
  "example_summary txt =
     \<lparr> total_functions_analyzed = 99, high_priority_count = 77, findings = [],
       summary = txt, recommendations = [txt] \<rparr>"

definition example_agent :: "string \<Rightarrow> nat SecurityTriageAgent" where
  "example_agent txt =
     \<lparr> fast_filter_run = (\<lambda>p w.
         (if qp_file_path p = ''tests/conf.py'' then Inr ''false_positive''
          else if qp_file_path p = ''app/flaky.py'' then Inl (Exception ''timeout'')
          else if qp_file_path p = ''app/real.py'' then Inr ''REAL, not a false alarm''
          else Inr ''REAL'', Suc w)),
       triage_agent_run = (\<lambda>p w.
         (if tp_file_path p = ''app/info.py'' then Inr (mk_analysis ''info'' INFO)
          else if tp_file_path p = ''app/low.py'' then Inr (mk_analysis ''low'' LOW)
          else if tp_file_path p = ''app/crit.py'' then Inr (mk_analysis ''crit'' CRITICAL)
          else if tp_file_path p = ''app/fail.py'' then Inl (Exception ''bad output'')
          else Inr (mk_analysis ''high'' HIGH), Suc w)),
       summary_agent_run = (\<lambda>p w. (Inr (example_summary txt), Suc w)) \<rparr>"

definition example_findings :: "AstGrepFinding list" where
  "example_findings =
     [mk_finding ''tests/conf.py'' 3, mk_finding ''app/low.py'' 7, mk_finding ''app/info.py'' 9,
      mk_finding ''app/crit.py'' 1, mk_finding ''missing.py'' 2, mk_finding ''app/api/users.py'' 10]"

definition quota_findings :: "AstGrepFinding list" where
  "quota_findings =
     [mk_finding ''tests/conf.py'' 3, mk_finding ''app/low.py'' 7, mk_finding ''app/crit.py'' 1]"

definition example_service :: "string list \<Rightarrow> ServiceInfo" where
  "example_service paths =
     \<lparr> ServiceInfo.name = None, ServiceInfo.network_exposure = Some ''Internet-facing'',
       ServiceInfo.deployment_target = Some ''ECS'', ServiceInfo.upstream_services = None,
       ServiceInfo.downstream_services = Some [''db''], repository_paths = Some paths \<rparr>"

definition example_model :: "(string \<times> ServiceInfo) list \<Rightarrow> DeploymentModel" where
  "example_model svcs =
     \<lparr> services = svcs,
       trust_zones = [\<lparr> TrustZone.name = Some ''Application Zone'',
                        TrustZone.services = Some [''api''] \<rparr>],
       communications =
         [\<lparr> from_service = Some ''web'', auth_method = Some [] \<rparr>,
          \<lparr> from_service = Some ''api'', auth_method = Some ''IAM Role'' \<rparr>,
          \<lparr> from_service = Some ''api'', auth_method = Some ''mTLS'' \<rparr>],
       user_authentication_method = Some ''OAuth2 JWT'' \<rparr>"

text \<open>
  A model in which the first communication of the service \<^verbatim>\<open>web\<close> has an empty
  \<^verbatim>\<open>auth_method\<close> and the second a usable one.
\<close>

definition shadowed_auth_model :: DeploymentModel where
  "shadowed_auth_model =
     (example_model [(''web'', example_service [''app/''])])
       \<lparr> communications :=
           [\<lparr> from_service = Some ''web'', auth_method = Some [] \<rparr>,
            \<lparr> from_service = Some ''web'', auth_method = Some ''mTLS'' \<rparr>] \<rparr>"

section \<open>Prioritization: sorting and counts\<close>

lemma risk_order_inj: "risk_order a = risk_order b \<longleftrightarrow> a = b"
  by (cases a; cases b) simp_all

lemma sorted_analyses_sorted:
  "sorted (map (\<lambda>x. risk_order (risk_level x)) (sorted_analyses xs))"
  by (simp add: sorted_analyses_def)

lemma sorted_analyses_mset: "mset (sorted_analyses xs) = mset xs"
  by (simp add: sorted_analyses_def)

lemma sorted_analyses_stable:
  "filter (\<lambda>a. risk_level a = r) (sorted_analyses xs) = filter (\<lambda>a. risk_level a = r) xs"
proof -
  have "filter (\<lambda>a. risk_order (risk_level a) = risk_order r) (sorted_analyses xs)
      = filter (\<lambda>a. risk_order (risk_level a) = risk_order r) xs"
    unfolding sorted_analyses_def by (rule sort_key_stable)
  then show ?thesis by (simp add: risk_order_inj)
qed

lemma prioritize_findings_Inr:
  assumes "summary_agent_run agent (summary_prompt xs) w = (Inr out, w')"
  shows "prioritize_findings agent xs w =
           (Inr \<lparr> total_functions_analyzed = int (length xs),
                  high_priority_count = int (high_priority_count_of xs),
                  findings = sorted_analyses xs,
                  summary = summary out,
                  recommendations = recommendations out \<rparr>, w')"
  using assms by (simp add: prioritize_findings_def)

lemma prioritize_findings_Inr_iff:
  "prioritize_findings agent xs w = (Inr pf, w') \<longleftrightarrow>
     (\<exists>out. summary_agent_run agent (summary_prompt xs) w = (Inr out, w')
        \<and> pf = \<lparr> total_functions_analyzed = int (length xs),
                  high_priority_count = int (high_priority_count_of xs),
                  findings = sorted_analyses xs,
                  summary = summary out,
                  recommendations = recommendations out \<rparr>)"
  by (auto simp: prioritize_findings_def split: prod.splits sum.splits)

lemma high_priority_count_of_mset:
  "mset xs = mset ys \<Longrightarrow> high_priority_count_of xs = high_priority_count_of ys"
proof -
  assume "mset xs = mset ys"
  then have "mset (filter (\<lambda>a. risk_level a \<in> set [CRITICAL, HIGH]) xs)
           = mset (filter (\<lambda>a. risk_level a \<in> set [CRITICAL, HIGH]) ys)"
    by (simp only: mset_filter)
  then have "size (mset (filter (\<lambda>a. risk_level a \<in> set [CRITICAL, HIGH]) xs))
           = size (mset (filter (\<lambda>a. risk_level a \<in> set [CRITICAL, HIGH]) ys))"
    by (rule arg_cong)
  then show ?thesis
    unfolding high_priority_count_of_def count_where_def by (simp only: size_mset)
qed

text \<open>
  Claim C5. Whenever the summary agent answers, \<^verbatim>\<open>prioritize_findings\<close> returns, and
  the findings it returns are the input stably sorted by risk level in the fixed order
  CRITICAL, HIGH, MEDIUM, LOW, INFO: the ranks of the output are non-decreasing, the output
  is a permutation of the input, and for every risk level the analyses of that level
  appear in the output in their input order. (When the summary agent raises, the function
  raises and returns nothing.)
\<close>

theorem C5_prioritize_findings_stable_sort:
  assumes "summary_agent_run agent (summary_prompt xs) w = (Inr out, w')"
  shows "\<exists>pf. prioritize_findings agent xs w = (Inr pf, w')
           \<and> findings pf = sort_key (\<lambda>x. risk_order (risk_level x)) xs
           \<and> sorted (map (\<lambda>x. risk_order (risk_level x)) (findings pf))
           \<and> mset (findings pf) = mset xs
           \<and> (\<forall>r. filter (\<lambda>a. risk_level a = r) (findings pf)
                   = filter (\<lambda>a. risk_level a = r) xs)
           \<and> risk_order CRITICAL < risk_order HIGH \<and> risk_order HIGH < risk_order MEDIUM
           \<and> risk_order MEDIUM < risk_order LOW \<and> risk_order LOW < risk_order INFO"
proof -
  let ?pf = "\<lparr> total_functions_analyzed = int (length xs),
                  high_priority_count = int (high_priority_count_of xs),
                  findings = sorted_analyses xs,
                  summary = summary out,
                  recommendations = recommendations out \<rparr>"
  have "prioritize_findings agent xs w = (Inr ?pf, w')"
    using assms by (rule prioritize_findings_Inr)
  moreover have "findings ?pf = sort_key (\<lambda>x. risk_order (risk_level x)) xs"
    by (simp add: sorted_analyses_def)
  moreover have "sorted (map (\<lambda>x. risk_order (risk_level x)) (findings ?pf))"
    by (simp add: sorted_analyses_sorted)
  moreover have "mset (findings ?pf) = mset xs"
    by (simp add: sorted_analyses_mset)
  moreover have "\<forall>r. filter (\<lambda>a. risk_level a = r) (findings ?pf)
                   = filter (\<lambda>a. risk_level a = r) xs"
    by (simp add: sorted_analyses_stable)
  ultimately show ?thesis by (intro exI[of _ ?pf]) simp
qed

theorem C5_prioritize_findings_stable_sort_witness:
  "summary_agent_run (example_agent ''a'')
       (summary_prompt [mk_analysis ''l1'' LOW, mk_analysis ''c'' CRITICAL, mk_analysis ''l2'' LOW])
       0 = (Inr (example_summary ''a''), 1)
   \<and> (\<exists>pf. prioritize_findings (example_agent ''a'')
              [mk_analysis ''l1'' LOW, mk_analysis ''c'' CRITICAL, mk_analysis ''l2'' LOW] 0
              = (Inr pf, 1)
         \<and> findings pf = [mk_analysis ''c'' CRITICAL, mk_analysis ''l1'' LOW, mk_analysis ''l2'' LOW])"
proof -
  have h: "summary_agent_run (example_agent ''a'')
       (summary_prompt [mk_analysis ''l1'' LOW, mk_analysis ''c'' CRITICAL, mk_analysis ''l2'' LOW])
       0 = (Inr (example_summary ''a''), 1)"
    by (simp add: example_agent_def)
  have s: "sort_key (\<lambda>x. risk_order (risk_level x))
             [mk_analysis ''l1'' LOW, mk_analysis ''c'' CRITICAL, mk_analysis ''l2'' LOW]
           = [mk_analysis ''c'' CRITICAL, mk_analysis ''l1'' LOW, mk_analysis ''l2'' LOW]"
    by (simp add: mk_analysis_def)
  from C5_prioritize_findings_stable_sort [OF h] s h show ?thesis by auto
qed

text \<open>
  Claim C8. In the report \<^verbatim>\<open>prioritize_findings\<close> returns, the findings list, the total
  and the high-priority count are computed from the input analyses alone: the sorted
  input, its length and the number of CRITICAL or HIGH analyses. The summary and the
  recommendations are the summary agent's, verbatim. Two runs on the same analyses, with
  any two agents and worlds, return reports that differ at most in summary and
  recommendations, and the high-priority count is the same for every reordering of the
  input.
\<close>

theorem C8_narrative_tier_cannot_alter_counts:
  assumes "prioritize_findings agent1 xs w1 = (Inr pf1, w1')"
      and "prioritize_findings agent2 xs w2 = (Inr pf2, w2')"
      and "mset ys = mset xs"
      and "prioritize_findings agent3 ys w3 = (Inr pf3, w3')"
  shows "findings pf1 = sort_key (\<lambda>x. risk_order (risk_level x)) xs
       \<and> total_functions_analyzed pf1 = int (length xs)
       \<and> high_priority_count pf1
           = int (length (filter (\<lambda>a. risk_level a = CRITICAL \<or> risk_level a = HIGH) xs))
       \<and> (\<exists>out. summary_agent_run agent1 (summary_prompt xs) w1 = (Inr out, w1')
              \<and> summary pf1 = summary out \<and> recommendations pf1 = recommendations out)
       \<and> pf2 = pf1\<lparr> summary := summary pf2, recommendations := recommendations pf2 \<rparr>
       \<and> high_priority_count pf3 = high_priority_count pf1"
proof -
  from assms(1) obtain out1 where o1: "summary_agent_run agent1 (summary_prompt xs) w1 = (Inr out1, w1')"
    and p1: "pf1 = \<lparr> total_functions_analyzed = int (length xs),
                  high_priority_count = int (high_priority_count_of xs),
                  findings = sorted_analyses xs,
                  summary = summary out1,
                  recommendations = recommendations out1 \<rparr>"
    unfolding prioritize_findings_Inr_iff by blast
  from assms(2) obtain out2 :: PrioritizedFindings where 
    p2: "pf2 = \<lparr> total_functions_analyzed = int (length xs),
                  high_priority_count = int (high_priority_count_of xs),
                  findings = sorted_analyses xs,
                  summary = summary out2,
                  recommendations = recommendations out2 \<rparr>"
    unfolding prioritize_findings_Inr_iff by blast
  from assms(4) obtain out3 :: PrioritizedFindings where 
    p3: "pf3 = \<lparr> total_functions_analyzed = int (length ys),
                  high_priority_count = int (high_priority_count_of ys),
                  findings = sorted_analyses ys,
                  summary = summary out3,
                  recommendations = recommendations out3 \<rparr>"
    unfolding prioritize_findings_Inr_iff by blast
  have hp: "high_priority_count_of xs
           = length (filter (\<lambda>a. risk_level a = CRITICAL \<or> risk_level a = HIGH) xs)"
    by (simp add: high_priority_count_of_def count_where_def)
  have a: "findings pf1 = sort_key (\<lambda>x. risk_order (risk_level x)) xs"
    by (simp add: p1 sorted_analyses_def)
  have b: "total_functions_analyzed pf1 = int (length xs)" by (simp add: p1)
  have c: "high_priority_count pf1
           = int (length (filter (\<lambda>a. risk_level a = CRITICAL \<or> risk_level a = HIGH) xs))"
    by (simp add: p1 hp)
  have d: "\<exists>out. summary_agent_run agent1 (summary_prompt xs) w1 = (Inr out, w1')
              \<and> summary pf1 = summary out \<and> recommendations pf1 = recommendations out"
    using o1 by (intro exI[of _ out1]) (simp add: p1)
  have e: "pf2 = pf1\<lparr> summary := summary pf2, recommendations := recommendations pf2 \<rparr>"
    by (simp add: p1 p2)
  have f: "high_priority_count pf3 = high_priority_count pf1"
    using high_priority_count_of_mset [OF assms(3)] by (simp add: p1 p3)
  from a b c d e f show ?thesis by blast
qed

theorem C8_narrative_tier_cannot_alter_counts_witness:
  "prioritize_findings (example_agent ''a'') [mk_analysis ''l'' LOW, mk_analysis ''c'' CRITICAL] 0
     = (Inr \<lparr> total_functions_analyzed = 2, high_priority_count = 1,
              findings = [mk_analysis ''c'' CRITICAL, mk_analysis ''l'' LOW],
              summary = ''a'', recommendations = [''a''] \<rparr>, 1)
   \<and> prioritize_findings (example_agent ''b'') [mk_analysis ''l'' LOW, mk_analysis ''c'' CRITICAL] 5
     = (Inr \<lparr> total_functions_analyzed = 2, high_priority_count = 1,
              findings = [mk_analysis ''c'' CRITICAL, mk_analysis ''l'' LOW],
              summary = ''b'', recommendations = [''b''] \<rparr>, 6)
   \<and> mset [mk_analysis ''c'' CRITICAL, mk_analysis ''l'' LOW]
       = mset [mk_analysis ''l'' LOW, mk_analysis ''c'' CRITICAL]
   \<and> prioritize_findings (example_agent ''c'') [mk_analysis ''c'' CRITICAL, mk_analysis ''l'' LOW] 0
     = (Inr \<lparr> total_functions_analyzed = 2, high_priority_count = 1,
              findings = [mk_analysis ''c'' CRITICAL, mk_analysis ''l'' LOW],
              summary = ''c'', recommendations = [''c''] \<rparr>, 1)
   \<and> high_priority_count \<lparr> total_functions_analyzed = 2, high_priority_count = 1,
              findings = [mk_analysis ''c'' CRITICAL, mk_analysis ''l'' LOW],
              summary = ''c'', recommendations = [''c''] \<rparr>
       = high_priority_count \<lparr> total_functions_analyzed = 2, high_priority_count = 1,
              findings = [mk_analysis ''c'' CRITICAL, mk_analysis ''l'' LOW],
              summary = ''a'', recommendations = [''a''] \<rparr>"
proof -
  have h1: "prioritize_findings (example_agent ''a'') [mk_analysis ''l'' LOW, mk_analysis ''c'' CRITICAL] 0
     = (Inr \<lparr> total_functions_analyzed = 2, high_priority_count = 1,
              findings = [mk_analysis ''c'' CRITICAL, mk_analysis ''l'' LOW],
              summary = ''a'', recommendations = [''a''] \<rparr>, 1)"
    by (simp add: prioritize_findings_def example_agent_def example_summary_def
          sorted_analyses_def high_priority_count_of_def count_where_def mk_analysis_def)
  have h2: "prioritize_findings (example_agent ''b'') [mk_analysis ''l'' LOW, mk_analysis ''c'' CRITICAL] 5
     = (Inr \<lparr> total_functions_analyzed = 2, high_priority_count = 1,
              findings = [mk_analysis ''c'' CRITICAL, mk_analysis ''l'' LOW],
              summary = ''b'', recommendations = [''b''] \<rparr>, 6)"
    by (simp add: prioritize_findings_def example_agent_def example_summary_def
          sorted_analyses_def high_priority_count_of_def count_where_def mk_analysis_def)
  have h3: "mset [mk_analysis ''c'' CRITICAL, mk_analysis ''l'' LOW]
       = mset [mk_analysis ''l'' LOW, mk_analysis ''c'' CRITICAL]"
    by (simp add: add.commute)
  have h4: "prioritize_findings (example_agent ''c'') [mk_analysis ''c'' CRITICAL, mk_analysis ''l'' LOW] 0
     = (Inr \<lparr> total_functions_analyzed = 2, high_priority_count = 1,
              findings = [mk_analysis ''c'' CRITICAL, mk_analysis ''l'' LOW],
              summary = ''c'', recommendations = [''c''] \<rparr>, 1)"
    by (simp add: prioritize_findings_def example_agent_def example_summary_def
          sorted_analyses_def high_priority_count_of_def count_where_def mk_analysis_def)
  from C8_narrative_tier_cannot_alter_counts [OF h1 h2 h3 h4] h1 h2 h3 h4
  show ?thesis by simp
qed

section \<open>Triage pipeline: batch and streaming\<close>

lemma streaming_body_view:
  "streaming_body agent cr n idx f (streaming_view b)
     = streaming_view (batch_body agent cr n idx f b)"
  by (simp add: streaming_body_def batch_body_def streaming_view_def Let_def
        split: prod.splits option.splits sum.splits)

lemma streaming_view_i: "(streaming_view b)\<lparr> s_i := x \<rparr> = streaming_view (b\<lparr> b_i := x \<rparr>)"
  by (simp add: streaming_view_def)

lemma streaming_loop_view:
  "streaming_loop agent cr mx n idx fs (streaming_view b)
     = streaming_view (batch_loop agent cr mx n idx fs b)"
proof (induction fs arbitrary: b idx)
  case Nil
  show ?case by simp
next
  case (Cons f fs)
  show ?case
  proof (cases "quota_reached mx (b_real_handler_count b)")
    case True
    then show ?thesis by (simp add: streaming_view_def)
  next
    case False
    then have "\<not> quota_reached mx (s_real_handler_count (streaming_view b))"
      by (simp add: streaming_view_def)
    then show ?thesis
      using False Cons.IH by (simp add: streaming_view_i streaming_body_view)
  qed
qed

lemma streaming_run_view:
  "streaming_run agent fs cr mx w = streaming_view (batch_run agent fs cr mx w)"
proof -
  have "streaming_init w = streaming_view (batch_init w)"
    by (simp add: streaming_init_def batch_init_def streaming_view_def)
  then show ?thesis
    by (simp add: streaming_run_def batch_run_def streaming_loop_view)
qed

text \<open>
  Claim C4. On the same findings, code reader, providers, quota and outside world, the
  streaming generator yields the sequence of analyses that the batch function
  accumulates, with the same fast-filtered, deep-analyzed and real-handler counts, the
  same printed decision for every finding, the same last loop index and the same calls
  to the outside. The batch function then hands that sequence to
  \<^verbatim>\<open>prioritize_findings\<close>; both raise on an empty list of findings.
\<close>

theorem C4_batch_and_streaming_agree:
  "s_yielded (streaming_run agent fs cr mx w) = b_analyses (batch_run agent fs cr mx w)
   \<and> s_fast_filtered_count (streaming_run agent fs cr mx w)
       = b_fast_filtered_count (batch_run agent fs cr mx w)
   \<and> s_total_analyzed (streaming_run agent fs cr mx w)
       = length (b_analyses (batch_run agent fs cr mx w))
   \<and> s_real_handler_count (streaming_run agent fs cr mx w)
       = b_real_handler_count (batch_run agent fs cr mx w)
   \<and> s_stdout (streaming_run agent fs cr mx w) = b_stdout (batch_run agent fs cr mx w)
   \<and> s_i (streaming_run agent fs cr mx w) = b_i (batch_run agent fs cr mx w)
   \<and> s_world (streaming_run agent fs cr mx w) = b_world (batch_run agent fs cr mx w)
   \<and> triage_all_findings agent fs cr mx w =
       (case triage_all_findings_streaming agent fs cr mx w of
          (yielded, Some e, w') \<Rightarrow> (Inl e, w')
        | (yielded, None, w') \<Rightarrow> prioritize_findings agent yielded w')"
  by (simp add: streaming_run_view streaming_view_def triage_all_findings_def
        triage_all_findings_streaming_def Let_def split: option.splits)


lemma quota_reached_None [simp]: "quota_reached None c = False"
  by (simp add: quota_reached_def)

lemma quota_reached_zero [simp]: "quota_reached (Some 0) c = False"
  by (simp add: quota_reached_def)

lemma quota_reached_Some: "m \<noteq> 0 \<Longrightarrow> quota_reached (Some m) c \<longleftrightarrow> m \<le> int c"
  by (simp add: quota_reached_def)








lemma batch_loop_quota_prefix:
  assumes "m \<noteq> 0"
  shows "\<exists>k\<le>length fs.
      batch_loop agent cr (Some m) n idx fs s
        = (if k < length fs
           then (batch_loop agent cr None n idx (take k fs) s)
                  \<lparr> b_i := Some (idx + k),
                    b_stdout := b_stdout (batch_loop agent cr None n idx (take k fs) s)
                                @ [ReachedQuota m] \<rparr>
           else batch_loop agent cr None n idx fs s)
    \<and> (k < length fs \<longrightarrow>
          m \<le> int (b_real_handler_count (batch_loop agent cr None n idx (take k fs) s)))
    \<and> (\<forall>j<k. int (b_real_handler_count (batch_loop agent cr None n idx (take j fs) s)) < m)"
proof (induction fs arbitrary: s idx)
  case Nil
  show ?case by simp
next
  case (Cons f fs)
  show ?case
  proof (cases "m \<le> int (b_real_handler_count s)")
    case True
    then have "quota_reached (Some m) (b_real_handler_count s)"
      using assms by (simp add: quota_reached_Some)
    then show ?thesis using True by (intro exI[of _ 0]) simp
  next
    case False
    then have nq: "\<not> quota_reached (Some m) (b_real_handler_count s)"
      using assms by (simp add: quota_reached_Some)
    let ?s' = "batch_body agent cr n idx f (s\<lparr> b_i := Some idx \<rparr>)"
    from Cons.IH [of "Suc idx" ?s'] obtain k where k: "k \<le> length fs"
      and eq: "batch_loop agent cr (Some m) n (Suc idx) fs ?s'
        = (if k < length fs
           then (batch_loop agent cr None n (Suc idx) (take k fs) ?s')
                  \<lparr> b_i := Some (Suc idx + k),
                    b_stdout := b_stdout (batch_loop agent cr None n (Suc idx) (take k fs) ?s')
                                @ [ReachedQuota m] \<rparr>
           else batch_loop agent cr None n (Suc idx) fs ?s')"
      and stop: "k < length fs \<longrightarrow>
          m \<le> int (b_real_handler_count (batch_loop agent cr None n (Suc idx) (take k fs) ?s'))"
      and before: "\<forall>j<k. int (b_real_handler_count
                      (batch_loop agent cr None n (Suc idx) (take j fs) ?s')) < m"
      by blast
    have b': "\<forall>j<Suc k. int (b_real_handler_count
                      (batch_loop agent cr None n idx (take j (f # fs)) s)) < m"
    proof (intro allI impI)
      fix j assume "j < Suc k"
      show "int (b_real_handler_count (batch_loop agent cr None n idx (take j (f # fs)) s)) < m"
      proof (cases j)
        case 0
        then show ?thesis using False by simp
      next
        case (Suc j')
        then have "j' < k" using \<open>j < Suc k\<close> by simp
        then show ?thesis using before Suc by simp
      qed
    qed
    show ?thesis
      using k eq stop b' nq by (intro exI[of _ "Suc k"]) simp
  qed
qed

lemma batch_body_count_inv:
  assumes "b_real_handler_count s = length (filter (\<lambda>a. risk_level a \<noteq> INFO) (b_analyses s))"
  shows "b_real_handler_count (batch_body agent cr n idx f s)
           = length (filter (\<lambda>a. risk_level a \<noteq> INFO) (b_analyses (batch_body agent cr n idx f s)))"
  using assms
  by (simp add: batch_body_def Let_def split: prod.splits option.splits sum.splits)

lemma batch_loop_count_inv:
  assumes "b_real_handler_count s = length (filter (\<lambda>a. risk_level a \<noteq> INFO) (b_analyses s))"
  shows "b_real_handler_count (batch_loop agent cr mx n idx fs s)
           = length (filter (\<lambda>a. risk_level a \<noteq> INFO)
                       (b_analyses (batch_loop agent cr mx n idx fs s)))"
  using assms
proof (induction fs arbitrary: s idx)
  case Nil
  then show ?case by simp
next
  case (Cons f fs)
  have "b_real_handler_count (batch_body agent cr n idx f (s\<lparr> b_i := Some idx \<rparr>))
          = length (filter (\<lambda>a. risk_level a \<noteq> INFO)
                      (b_analyses (batch_body agent cr n idx f (s\<lparr> b_i := Some idx \<rparr>))))"
    by (rule batch_body_count_inv) (simp add: Cons.prems)
  then show ?case using Cons.prems by (simp add: Cons.IH)
qed

lemma batch_body_count_step:
  "b_real_handler_count (batch_body agent cr n idx f s) \<le> Suc (b_real_handler_count s)"
  by (simp add: batch_body_def Let_def split: prod.splits option.splits sum.splits)

lemma batch_loop_count_bound:
  assumes "1 \<le> m" "int (b_real_handler_count s) \<le> m"
  shows "int (b_real_handler_count (batch_loop agent cr (Some m) n idx fs s)) \<le> m"
  using assms(2)
proof (induction fs arbitrary: s idx)
  case Nil
  then show ?case by simp
next
  case (Cons f fs)
  show ?case
  proof (cases "quota_reached (Some m) (b_real_handler_count s)")
    case True
    then show ?thesis using Cons.prems by simp
  next
    case False
    then have "int (b_real_handler_count s) < m"
      using assms(1) by (simp add: quota_reached_def)
    moreover have "b_real_handler_count (batch_body agent cr n idx f (s\<lparr> b_i := Some idx \<rparr>))
                    \<le> Suc (b_real_handler_count (s\<lparr> b_i := Some idx \<rparr>))"
      by (rule batch_body_count_step)
    ultimately have "int (b_real_handler_count
                       (batch_body agent cr n idx f (s\<lparr> b_i := Some idx \<rparr>))) \<le> m"
      by simp
    then show ?thesis using False by (simp add: Cons.IH)
  qed
qed

text \<open>
  Claim C2 (amended). For a quota \<open>m \<noteq> 0\<close> the batch run is the unlimited run over the
  first \<open>k\<close> findings, where \<open>k\<close> is the first position at which at least \<open>m\<close> analyses
  other than INFO exist (or the end of the list): the analyses, both counters and the
  outside world are those of that prefix run, so later findings are neither read,
  fast-filtered nor analysed. The real-handler counter is the number of accumulated
  analyses other than INFO, so an INFO analysis is accumulated without advancing it, and
  for \<open>m \<ge> 1\<close> the counter never exceeds the quota. The streaming generator has the same
  variables.
\<close>

theorem C2_quota_stops_admission:
  assumes "m \<noteq> 0"
  shows "\<exists>k\<le>length fs.
      b_analyses (batch_run agent fs cr (Some m) w) = b_analyses (batch_prefix_run agent fs cr k w)
    \<and> b_real_handler_count (batch_run agent fs cr (Some m) w)
        = b_real_handler_count (batch_prefix_run agent fs cr k w)
    \<and> b_fast_filtered_count (batch_run agent fs cr (Some m) w)
        = b_fast_filtered_count (batch_prefix_run agent fs cr k w)
    \<and> b_world (batch_run agent fs cr (Some m) w) = b_world (batch_prefix_run agent fs cr k w)
    \<and> b_stdout (batch_run agent fs cr (Some m) w)
        = b_stdout (batch_prefix_run agent fs cr k w)
          @ (if k < length fs then [ReachedQuota m] else [])
    \<and> (k < length fs \<longrightarrow> m \<le> int (b_real_handler_count (batch_prefix_run agent fs cr k w)))
    \<and> (\<forall>j<k. int (b_real_handler_count (batch_prefix_run agent fs cr j w)) < m)
    \<and> b_real_handler_count (batch_run agent fs cr (Some m) w)
        = length (filter (\<lambda>a. risk_level a \<noteq> INFO) (b_analyses (batch_run agent fs cr (Some m) w)))
    \<and> (1 \<le> m \<longrightarrow> int (b_real_handler_count (batch_run agent fs cr (Some m) w)) \<le> m)
    \<and> streaming_run agent fs cr (Some m) w = streaming_view (batch_run agent fs cr (Some m) w)"
proof -
  from batch_loop_quota_prefix [OF assms, of fs agent cr "length fs" 1 "batch_init w"]
  obtain k where k: "k \<le> length fs"
    and eq: "batch_run agent fs cr (Some m) w
        = (if k < length fs
           then (batch_prefix_run agent fs cr k w)
                  \<lparr> b_i := Some (1 + k),
                    b_stdout := b_stdout (batch_prefix_run agent fs cr k w) @ [ReachedQuota m] \<rparr>
           else batch_loop agent cr None (length fs) 1 fs (batch_init w))"
    and stop: "k < length fs \<longrightarrow>
          m \<le> int (b_real_handler_count (batch_prefix_run agent fs cr k w))"
    and before: "\<forall>j<k. int (b_real_handler_count (batch_prefix_run agent fs cr j w)) < m"
    unfolding batch_run_def batch_prefix_run_def by blast
  have full: "\<not> k < length fs \<Longrightarrow>
        batch_loop agent cr None (length fs) 1 fs (batch_init w) = batch_prefix_run agent fs cr k w"
    using k by (simp add: batch_prefix_run_def)
  have inv: "b_real_handler_count (batch_run agent fs cr (Some m) w)
        = length (filter (\<lambda>a. risk_level a \<noteq> INFO) (b_analyses (batch_run agent fs cr (Some m) w)))"
    unfolding batch_run_def by (rule batch_loop_count_inv) (simp add: batch_init_def)
  have bound: "1 \<le> m \<longrightarrow> int (b_real_handler_count (batch_run agent fs cr (Some m) w)) \<le> m"
    unfolding batch_run_def
    by (intro impI batch_loop_count_bound) (simp_all add: batch_init_def)
  have fields: "b_analyses (batch_run agent fs cr (Some m) w)
          = b_analyses (batch_prefix_run agent fs cr k w)
    \<and> b_real_handler_count (batch_run agent fs cr (Some m) w)
        = b_real_handler_count (batch_prefix_run agent fs cr k w)
    \<and> b_fast_filtered_count (batch_run agent fs cr (Some m) w)
        = b_fast_filtered_count (batch_prefix_run agent fs cr k w)
    \<and> b_world (batch_run agent fs cr (Some m) w) = b_world (batch_prefix_run agent fs cr k w)
    \<and> b_stdout (batch_run agent fs cr (Some m) w)
        = b_stdout (batch_prefix_run agent fs cr k w)
          @ (if k < length fs then [ReachedQuota m] else [])"
    using eq full by (cases "k < length fs") simp_all
  from k fields stop before inv bound streaming_run_view [of agent fs cr "Some m" w]
  show ?thesis by blast
qed

theorem C2_quota_stops_admission_witness:
  "(1::int) \<noteq> 0
   \<and> (\<exists>k\<le>length quota_findings.
         b_analyses (batch_run (example_agent ''a'') quota_findings example_reader (Some 1) 0)
           = b_analyses (batch_prefix_run (example_agent ''a'') quota_findings example_reader k 0)
         \<and> (\<forall>j<k. int (b_real_handler_count
                (batch_prefix_run (example_agent ''a'') quota_findings example_reader j 0)) < 1))
   \<and> int (b_real_handler_count
            (batch_run (example_agent ''a'') quota_findings example_reader (Some 1) 0)) \<le> 1
   \<and> batch_run (example_agent ''a'') quota_findings example_reader (Some 1) 0
       = \<lparr> b_analyses = [mk_analysis ''low'' LOW], b_real_handler_count = 1,
           b_fast_filtered_count = 1, b_i = Some 3,
           b_stdout = [Scanning 1 3 ''tests/conf.py'' 3, FalsePositiveFast,
                       Scanning 2 3 ''app/low.py'' 7, RealHandler LOW ''low'', ReachedQuota 1],
           b_world = 5 \<rparr>"
proof -
  have h: "(1::int) \<noteq> 0" by simp
  note t = C2_quota_stops_admission [OF h, of quota_findings "example_agent ''a''" example_reader 0]
  have a: "\<exists>k\<le>length quota_findings.
         b_analyses (batch_run (example_agent ''a'') quota_findings example_reader (Some 1) 0)
           = b_analyses (batch_prefix_run (example_agent ''a'') quota_findings example_reader k 0)
         \<and> (\<forall>j<k. int (b_real_handler_count
                (batch_prefix_run (example_agent ''a'') quota_findings example_reader j 0)) < 1)"
    using t by blast
  have b: "int (b_real_handler_count
            (batch_run (example_agent ''a'') quota_findings example_reader (Some 1) 0)) \<le> 1"
    using t by blast
  have e: "batch_run (example_agent ''a'') quota_findings example_reader (Some 1) 0
       = \<lparr> b_analyses = [mk_analysis ''low'' LOW], b_real_handler_count = 1,
           b_fast_filtered_count = 1, b_i = Some 3,
           b_stdout = [Scanning 1 3 ''tests/conf.py'' 3, FalsePositiveFast,
                       Scanning 2 3 ''app/low.py'' 7, RealHandler LOW ''low'', ReachedQuota 1],
           b_world = 5 \<rparr>"
    by code_simp
  from h a b e show ?thesis by (intro conjI)
qed

text \<open>
  The claim as stated fails for the quota 0: no analysis other than INFO exists before
  the first finding, so admission would have to stop at once, but the run with
  \<^verbatim>\<open>max_real_handlers = 0\<close> fast-filters one finding and analyses two.
\<close>

theorem C2_zero_quota_counterexample:
  "b_fast_filtered_count
       (batch_run (example_agent ''a'') quota_findings example_reader (Some 0) 0) = 1
   \<and> length (b_analyses
       (batch_run (example_agent ''a'') quota_findings example_reader (Some 0) 0)) = 2
   \<and> b_real_handler_count
       (batch_run (example_agent ''a'') quota_findings example_reader (Some 0) 0) = 2"
  by code_simp












text \<open>
  Claim C1 (fails on the code). The batch loop accumulates the deep tier's output as it
  is: \<^verbatim>\<open>triage_all_findings\<close> never consults the deployment model, and
  \<^verbatim>\<open>FunctionAnalysis\<close> (models.py) has no field for a deployment context. For a finding
  whose path the resolver does match, the accumulated analysis is exactly what the deep
  tier returned.
\<close>

theorem C1_analyses_are_deep_tier_output:
  "get_deployment_context (example_model [(''api'', example_service [''app/''])])
       (AstGrepFinding.file_path (mk_finding ''app/api/users.py'' 10)) \<noteq> None
   \<and> triage_function (example_agent ''a'') (mk_finding ''app/api/users.py'' 10)
       ''def handler(): pass'' 2 = (Inr (mk_analysis ''high'' HIGH), 3)
   \<and> b_analyses (batch_run (example_agent ''a'') [mk_finding ''app/api/users.py'' 10]
                    example_reader None 0) = [mk_analysis ''high'' HIGH]
   \<and> s_yielded (streaming_run (example_agent ''a'') [mk_finding ''app/api/users.py'' 10]
                    example_reader None 0) = [mk_analysis ''high'' HIGH]"
  by code_simp

section \<open>Deduplication\<close>

lemma of_char_digit_char: "d < 10 \<Longrightarrow> (of_char (digit_char d) :: nat) = 48 + d"
  by (simp add: digit_char_def)

lemma digits_val_snoc: "digits_val (ds @ [c]) = 10 * digits_val ds + ((of_char c :: nat) - 48)"
  by (simp add: digits_val_def)

lemma digits_val_str_nat: "digits_val (str_nat n) = n"
proof (induction n rule: str_nat.induct)
  case (1 n)
  show ?case
  proof (cases "n < 10")
    case True
    then have "str_nat n = [digit_char n]" by (subst str_nat.simps) simp
    then show ?thesis using True by (simp add: digits_val_def of_char_digit_char)
  next
    case False
    then have eq: "str_nat n = str_nat (n div 10) @ [digit_char (n mod 10)]"
      by (subst str_nat.simps) simp
    have "digits_val (str_nat (n div 10)) = n div 10" using False by (rule "1.IH")
    then show ?thesis by (simp add: eq digits_val_snoc of_char_digit_char)
  qed
qed

lemma str_nat_inj: "str_nat a = str_nat b \<Longrightarrow> a = b"
  by (metis digits_val_str_nat)

lemma str_nat_chars: "c \<in> set (str_nat n) \<Longrightarrow> \<exists>d<10. c = digit_char d"
proof (induction n rule: str_nat.induct)
  case (1 n)
  show ?case
  proof (cases "n < 10")
    case True
    then have "str_nat n = [digit_char n]" by (subst str_nat.simps) simp
    then show ?thesis using True "1.prems" by auto
  next
    case False
    then have eq: "str_nat n = str_nat (n div 10) @ [digit_char (n mod 10)]"
      by (subst str_nat.simps) simp
    from "1.prems" eq have "c \<in> set (str_nat (n div 10)) \<or> c = digit_char (n mod 10)" by auto
    then show ?thesis
    proof
      assume "c \<in> set (str_nat (n div 10))"
      with False show ?thesis by (rule "1.IH")
    next
      assume "c = digit_char (n mod 10)"
      moreover have "n mod 10 < 10" by simp
      ultimately show ?thesis by blast
    qed
  qed
qed

lemma digit_char_neq: "d < 10 \<Longrightarrow> digit_char d \<noteq> CHR '':'' \<and> digit_char d \<noteq> CHR ''-''"
proof -
  assume d: "d < 10"
  then have v: "(of_char (digit_char d) :: nat) = 48 + d" by (rule of_char_digit_char)
  have c: "(of_char CHR '':'' :: nat) = 58" and m: "(of_char CHR ''-'' :: nat) = 45"
    by simp_all
  have "digit_char d \<noteq> CHR '':''"
  proof
    assume "digit_char d = CHR '':''"
    with v c have "48 + d = 58" by simp
    with d show False by simp
  qed
  moreover have "digit_char d \<noteq> CHR ''-''"
  proof
    assume "digit_char d = CHR ''-''"
    with v m have "48 + d = 45" by simp
    then show False by simp
  qed
  ultimately show ?thesis by simp
qed

lemma str_nat_no_colon: "CHR '':'' \<notin> set (str_nat n)"
proof
  assume "CHR '':'' \<in> set (str_nat n)"
  then obtain d where "d < 10" "CHR '':'' = digit_char d" using str_nat_chars by metis
  then show False using digit_char_neq by metis
qed

lemma str_nat_no_minus: "CHR ''-'' \<notin> set (str_nat n)"
proof
  assume "CHR ''-'' \<in> set (str_nat n)"
  then obtain d where "d < 10" "CHR ''-'' = digit_char d" using str_nat_chars by metis
  then show False using digit_char_neq by metis
qed

lemma str_nat_not_Nil: "str_nat n \<noteq> []"
  by (subst str_nat.simps) simp

lemma str_nat_not_minus_Cons: "str_nat n \<noteq> CHR ''-'' # ds"
  using str_nat_no_minus [of n] by auto

lemma str_int_inj: "str_int a = str_int b \<Longrightarrow> a = b"
proof -
  assume eq: "str_int a = str_int b"
  show "a = b"
  proof (cases "a < 0")
    case True
    show ?thesis
    proof (cases "b < 0")
      case b: True
      with True eq have "str_nat (nat (- a)) = str_nat (nat (- b))" by (simp add: str_int_def)
      then have "nat (- a) = nat (- b)" by (rule str_nat_inj)
      with True b show ?thesis by simp
    next
      case False
      with True eq show ?thesis using str_nat_not_minus_Cons [of "nat b" "str_nat (nat (- a))"]
        by (simp add: str_int_def)
    qed
  next
    case False
    show ?thesis
    proof (cases "b < 0")
      case True
      with False eq show ?thesis using str_nat_not_minus_Cons [of "nat a" "str_nat (nat (- b))"]
        by (simp add: str_int_def)
    next
      case b: False
      with False eq have "str_nat (nat a) = str_nat (nat b)" by (simp add: str_int_def)
      then have "nat a = nat b" by (rule str_nat_inj)
      with False b show ?thesis by simp
    qed
  qed
qed

lemma str_int_no_colon: "CHR '':'' \<notin> set (str_int i)"
  by (simp add: str_int_def str_nat_no_colon)

lemma split_at_last_sep:
  assumes "xs @ c # ys = xs' @ c # ys'" "c \<notin> set ys" "c \<notin> set ys'"
  shows "xs = xs' \<and> ys = ys'"
proof -
  have "rev ys @ c # rev xs = rev ys' @ c # rev xs'"
    using arg_cong [OF assms(1), of rev] by simp
  then have "takeWhile (\<lambda>x. x \<noteq> c) (rev ys @ c # rev xs)
           = takeWhile (\<lambda>x. x \<noteq> c) (rev ys' @ c # rev xs')"
    by simp
  moreover have "takeWhile (\<lambda>x. x \<noteq> c) (rev ys @ c # rev xs) = rev ys"
    using assms(2) by (subst takeWhile_append2) auto
  moreover have "takeWhile (\<lambda>x. x \<noteq> c) (rev ys' @ c # rev xs') = rev ys'"
    using assms(3) by (subst takeWhile_append2) auto
  ultimately have "ys = ys'" by simp
  with assms(1) show ?thesis by simp
qed

lemma location_key_eq_iff: "location_key f = location_key g \<longleftrightarrow> identity f = identity g"
proof
  assume "location_key f = location_key g"
  then have "AstGrepFinding.file_path f @ CHR '':'' # str_int (AstGrepFinding.line_number f)
           = AstGrepFinding.file_path g @ CHR '':'' # str_int (AstGrepFinding.line_number g)"
    by (simp add: location_key_def)
  then have "AstGrepFinding.file_path f = AstGrepFinding.file_path g
           \<and> str_int (AstGrepFinding.line_number f) = str_int (AstGrepFinding.line_number g)"
    by (rule split_at_last_sep) (rule str_int_no_colon)+
  then show "identity f = identity g"
    using str_int_inj by (simp add: identity_def)
next
  assume "identity f = identity g"
  then show "location_key f = location_key g"
    by (simp add: identity_def location_key_def)
qed

lemma length_first_seen: "length (first_seen seen fs) \<le> length fs"
  by (induction fs arbitrary: seen) (auto intro: le_SucI)

lemma dedup_loop_first_seen:
  "dedup_loop fs (seen, u, d)
     = (seen \<union> location_key ` set fs, u @ first_seen seen fs,
        d + (length fs - length (first_seen seen fs)))"
proof (induction fs arbitrary: seen u d)
  case Nil
  show ?case by simp
next
  case (Cons f fs)
  show ?case
  proof (cases "location_key f \<in> seen")
    case True
    have "length (first_seen seen fs) \<le> length fs" by (rule length_first_seen)
    then have "Suc (length fs) - length (first_seen seen fs)
             = Suc (length fs - length (first_seen seen fs))" by simp
    with True show ?thesis by (simp add: Cons.IH insert_absorb)
  next
    case False
    then show ?thesis by (simp add: Cons.IH)
  qed
qed

lemma deduplicate_first_seen:
  "deduplicate fs = (first_seen {} fs, length fs - length (first_seen {} fs))"
  by (simp add: deduplicate_def dedup_loop_first_seen)

lemma first_seen_keys:
  "location_key ` set (first_seen seen fs) = location_key ` set fs - seen"
  by (induction fs arbitrary: seen) auto

lemma first_seen_distinct: "distinct (map location_key (first_seen seen fs))"
proof (induction fs arbitrary: seen)
  case Nil
  show ?case by simp
next
  case (Cons f fs)
  have "location_key f \<notin> location_key ` set (first_seen (insert (location_key f) seen) fs)"
    by (simp add: first_seen_keys)
  then show ?case by (simp add: Cons.IH)
qed

lemma first_seen_subseq: "subseq (first_seen seen fs) fs"
  by (induction fs arbitrary: seen) auto

lemma first_seen_first:
  "f \<in> set (first_seen seen fs) \<Longrightarrow> find (\<lambda>g. location_key g = location_key f) fs = Some f"
proof (induction fs arbitrary: seen)
  case Nil
  then show ?case by simp
next
  case (Cons x fs)
  show ?case
  proof (cases "location_key x \<in> seen")
    case True
    with Cons.prems have in_rest: "f \<in> set (first_seen seen fs)" by simp
    then have "location_key f \<in> location_key ` set (first_seen seen fs)" by (rule imageI)
    then have "location_key f \<notin> seen" by (simp add: first_seen_keys)
    with True have "location_key x \<noteq> location_key f" by auto
    then show ?thesis using Cons.IH [OF in_rest] by simp
  next
    case False
    with Cons.prems have "f = x \<or> f \<in> set (first_seen (insert (location_key x) seen) fs)"
      by simp
    then show ?thesis
    proof
      assume "f = x"
      then show ?thesis by simp
    next
      assume in_rest: "f \<in> set (first_seen (insert (location_key x) seen) fs)"
      then have "location_key f \<in> location_key ` set (first_seen (insert (location_key x) seen) fs)"
        by (rule imageI)
      then have "location_key f \<noteq> location_key x" by (auto simp: first_seen_keys)
      then have "location_key x \<noteq> location_key f" by simp
      then show ?thesis using Cons.IH [OF in_rest] by simp
    qed
  qed
qed

lemma identity_image_eq:
  assumes "location_key ` A = location_key ` B"
  shows "identity ` A = identity ` B"
proof -
  have "\<And>X Y. location_key ` X = location_key ` Y \<Longrightarrow> identity ` X \<subseteq> identity ` Y"
  proof
    fix X Y :: "AstGrepFinding set" and k
    assume eq: "location_key ` X = location_key ` Y" and "k \<in> identity ` X"
    then obtain f where f: "f \<in> X" "k = identity f" by blast
    then have "location_key f \<in> location_key ` Y" using eq by blast
    then obtain g where g: "g \<in> Y" "location_key f = location_key g" by blast
    then have "identity f = identity g" by (simp add: location_key_eq_iff)
    with f g show "k \<in> identity ` Y" by blast
  qed
  from this [OF assms] this [OF assms [symmetric]] show ?thesis by blast
qed

lemma map_identity_distinct:
  "distinct (map location_key xs) \<Longrightarrow> distinct (map identity xs)"
  unfolding distinct_map
  by (auto simp: inj_on_def location_key_eq_iff)

text \<open>
  Claim C7. Deduplication keeps exactly one finding for every distinct (file_path, line)
  key of the input: the identities of the output are pairwise different and are those of
  the input, so the output has as many findings as the input has distinct keys. The
  output is a subsequence of the input (first-seen order) and each finding kept is the
  first record of the input with its key. The count of duplicates removed is the input
  length minus the number of distinct keys.
\<close>

theorem C7_deduplicate_first_seen:
  "distinct (map identity (fst (deduplicate fs)))
   \<and> identity ` set (fst (deduplicate fs)) = identity ` set fs
   \<and> length (fst (deduplicate fs)) = card (identity ` set fs)
   \<and> subseq (fst (deduplicate fs)) fs
   \<and> (\<forall>f \<in> set (fst (deduplicate fs)). find (\<lambda>g. identity g = identity f) fs = Some f)
   \<and> snd (deduplicate fs) = length fs - card (identity ` set fs)
   \<and> card (identity ` set fs) \<le> length fs"
proof -
  let ?out = "first_seen {} fs"
  have out: "fst (deduplicate fs) = ?out" and removed: "snd (deduplicate fs) = length fs - length ?out"
    by (simp_all add: deduplicate_first_seen)
  have a: "distinct (map identity ?out)"
    by (rule map_identity_distinct) (rule first_seen_distinct)
  have "location_key ` set ?out = location_key ` set fs"
    by (simp add: first_seen_keys)
  then have b: "identity ` set ?out = identity ` set fs"
    by (rule identity_image_eq)
  have "card (set (map identity ?out)) = length (map identity ?out)"
    using a by (rule distinct_card)
  then have c: "length ?out = card (identity ` set fs)"
    using b by simp
  have d: "subseq ?out fs" by (rule first_seen_subseq)
  have e: "\<forall>f \<in> set ?out. find (\<lambda>g. identity g = identity f) fs = Some f"
  proof
    fix f assume "f \<in> set ?out"
    then have "find (\<lambda>g. location_key g = location_key f) fs = Some f"
      by (rule first_seen_first)
    then show "find (\<lambda>g. identity g = identity f) fs = Some f"
      by (simp add: location_key_eq_iff)
  qed
  have g: "card (identity ` set fs) \<le> length fs"
    using c length_first_seen [of "{}" fs] by simp
  from a b c d e g removed show ?thesis by (simp add: out)
qed

theorem C7_deduplicate_first_seen_witness:
  "deduplicate [mk_finding ''a.py'' 1, mk_finding ''b.py'' 2,
                (mk_finding ''a.py'' 1)\<lparr> rule_id := ''other-rule'' \<rparr>, mk_finding ''a.py'' 2]
     = ([mk_finding ''a.py'' 1, mk_finding ''b.py'' 2, mk_finding ''a.py'' 2], 1)
   \<and> find (\<lambda>g. identity g = identity (mk_finding ''a.py'' 1))
        [mk_finding ''a.py'' 1, mk_finding ''b.py'' 2,
         (mk_finding ''a.py'' 1)\<lparr> rule_id := ''other-rule'' \<rparr>, mk_finding ''a.py'' 2]
       = Some (mk_finding ''a.py'' 1)
   \<and> card (identity ` set [mk_finding ''a.py'' 1, mk_finding ''b.py'' 2,
         (mk_finding ''a.py'' 1)\<lparr> rule_id := ''other-rule'' \<rparr>, mk_finding ''a.py'' 2]) = 3"
proof -
  let ?fs = "[mk_finding ''a.py'' 1, mk_finding ''b.py'' 2,
              (mk_finding ''a.py'' 1)\<lparr> rule_id := ''other-rule'' \<rparr>, mk_finding ''a.py'' 2]"
  have e: "deduplicate ?fs = ([mk_finding ''a.py'' 1, mk_finding ''b.py'' 2, mk_finding ''a.py'' 2], 1)"
    by code_simp
  note t = C7_deduplicate_first_seen [of ?fs]
  from t have "\<forall>f \<in> set (fst (deduplicate ?fs)). find (\<lambda>g. identity g = identity f) ?fs = Some f"
    by (elim conjE)
  then have f: "find (\<lambda>g. identity g = identity (mk_finding ''a.py'' 1)) ?fs
                  = Some (mk_finding ''a.py'' 1)"
    by (simp add: e)
  from t have "length (fst (deduplicate ?fs)) = card (identity ` set ?fs)"
    by (elim conjE)
  then have c: "card (identity ` set ?fs) = 3" by (simp add: e)
  from e f c show ?thesis by (intro conjI)
qed

section \<open>Deployment context resolver\<close>

text \<open>One step of the search, on a declared fragment already normalized.\<close>

lemma try_repo_path_step:
  "try_repo_path p (split_on CHR ''/'' p) nm info st rp
     = (if fragment_matches p (normalize_repo_path rp) \<and> snd st < length (normalize_repo_path rp)
        then (Some (nm, info), length (normalize_repo_path rp)) else st)"
  by (auto simp: try_repo_path_def fragment_matches_def Let_def)

lemma foldl_try_repo_path:
  "foldl (try_repo_path p (split_on CHR ''/'' p) nm info) st rps
     = foldl (\<lambda>st c. if fragment_matches p (snd (snd c)) \<and> snd st < frag_len c
                      then (Some (fst c, fst (snd c)), frag_len c) else st)
         st (map (\<lambda>rp. (nm, info, normalize_repo_path rp)) rps)"
  by (induction rps arbitrary: st) (simp_all add: try_repo_path_step frag_len_def)

lemma match_service_foldl:
  "match_service svcs path
     = foldl (\<lambda>st c. if fragment_matches (normalize_file_path path) (snd (snd c))
                         \<and> snd st < frag_len c
                      then (Some (fst c, fst (snd c)), frag_len c) else st)
         (None, 0) (declared_fragments svcs)"
proof -
  have "\<And>st. foldl (\<lambda>st (svc_name, svc_info).
                  foldl (try_repo_path (normalize_file_path path)
                           (split_on CHR ''/'' (normalize_file_path path)) svc_name svc_info) st
                    (get_or (repository_paths svc_info) [])) st svcs
      = foldl (\<lambda>st c. if fragment_matches (normalize_file_path path) (snd (snd c))
                         \<and> snd st < frag_len c
                      then (Some (fst c, fst (snd c)), frag_len c) else st)
         st (declared_fragments svcs)"
  proof (induction svcs)
    case Nil
    show ?case by (simp add: declared_fragments_def)
  next
    case (Cons sv svcs)
    obtain nm info where sv: "sv = (nm, info)" by (cases sv)
    show ?case
      using Cons.IH by (simp add: sv declared_fragments_def foldl_try_repo_path)
  qed
  then show ?thesis by (simp add: match_service_def Let_def)
qed

text \<open>
  The search keeps the first of the longest among the candidates that match with a
  fragment that is not empty.
\<close>

lemma best_match_foldl:
  fixes good :: "'c \<Rightarrow> bool" and len :: "'c \<Rightarrow> nat" and val :: "'c \<Rightarrow> 'v"
  defines "step \<equiv> (\<lambda>st c. if good c \<and> snd st < len c then (Some (val c), len c) else st)"
  shows "(filter (\<lambda>c. good c \<and> 0 < len c) cs = [] \<longrightarrow> foldl step (None, 0) cs = (None, 0))
       \<and> (filter (\<lambda>c. good c \<and> 0 < len c) cs \<noteq> [] \<longrightarrow>
            (\<exists>before best after.
               filter (\<lambda>c. good c \<and> 0 < len c) cs = before @ best # after
               \<and> (\<forall>b\<in>set before. len b < len best)
               \<and> (\<forall>a\<in>set after. len a \<le> len best)
               \<and> foldl step (None, 0) cs = (Some (val best), len best)))"
proof (induction cs rule: rev_induct)
  case Nil
  show ?case by simp
next
  case (snoc c cs)
  let ?ms = "filter (\<lambda>c. good c \<and> 0 < len c) cs"
  have app: "foldl step (None, 0) (cs @ [c]) = step (foldl step (None, 0) cs) c" by simp
  show ?case
  proof (cases "good c \<and> 0 < len c")
    case False
    have "step st c = st" for st
      using False by (auto simp: step_def)
    then have "step (foldl step (None, 0) cs) c = foldl step (None, 0) cs" by simp
    moreover have "filter (\<lambda>c. good c \<and> 0 < len c) (cs @ [c]) = ?ms" using False by simp
    ultimately show ?thesis using snoc.IH by (simp only: app)
  next
    case True
    then have ms': "filter (\<lambda>c. good c \<and> 0 < len c) (cs @ [c]) = ?ms @ [c]" by simp
    show ?thesis
    proof (cases "?ms = []")
      case e: True
      then have "foldl step (None, 0) cs = (None, 0)" using snoc.IH by blast
      then have r: "foldl step (None, 0) (cs @ [c]) = (Some (val c), len c)"
        using True by (simp add: step_def)
      have "filter (\<lambda>c. good c \<and> 0 < len c) (cs @ [c]) = [] @ c # []" using ms' e by simp
      then show ?thesis using r by (metis append_is_Nil_conv empty_iff list.distinct(1) list.set(1))
    next
      case ne: False
      then obtain before best after where
        d: "?ms = before @ best # after"
        and lt: "\<forall>b\<in>set before. len b < len best"
        and le: "\<forall>a\<in>set after. len a \<le> len best"
        and r: "foldl step (None, 0) cs = (Some (val best), len best)"
        using snoc.IH by blast
      show ?thesis
      proof (cases "len best < len c")
        case gt: True
        then have r': "foldl step (None, 0) (cs @ [c]) = (Some (val c), len c)"
          using True r by (simp add: step_def)
        have d': "filter (\<lambda>c. good c \<and> 0 < len c) (cs @ [c]) = (before @ best # after) @ c # []"
          using ms' d by simp
        have lt': "\<forall>b\<in>set (before @ best # after). len b < len c"
          using lt le gt by auto
        have "\<exists>before best after.
               filter (\<lambda>c. good c \<and> 0 < len c) (cs @ [c]) = before @ best # after
               \<and> (\<forall>b\<in>set before. len b < len best)
               \<and> (\<forall>a\<in>set after. len a \<le> len best)
               \<and> foldl step (None, 0) (cs @ [c]) = (Some (val best), len best)"
          using d' lt' r' by (intro exI[of _ "before @ best # after"] exI[of _ c] exI[of _ "[]"]) simp
        then show ?thesis using ms' by simp
      next
        case ngt: False
        then have r': "foldl step (None, 0) (cs @ [c]) = (Some (val best), len best)"
          using r by (simp add: step_def)
        have d': "filter (\<lambda>c. good c \<and> 0 < len c) (cs @ [c]) = before @ best # (after @ [c])"
          using ms' d by simp
        have le': "\<forall>a\<in>set (after @ [c]). len a \<le> len best"
          using le ngt by auto
        have "\<exists>before best after.
               filter (\<lambda>c. good c \<and> 0 < len c) (cs @ [c]) = before @ best # after
               \<and> (\<forall>b\<in>set before. len b < len best)
               \<and> (\<forall>a\<in>set after. len a \<le> len best)
               \<and> foldl step (None, 0) (cs @ [c]) = (Some (val best), len best)"
          using d' lt le' r' by (intro exI[of _ before] exI[of _ best] exI[of _ "after @ [c]"]) simp
        then show ?thesis using ms' by simp
      qed
    qed
  qed
qed

lemma match_service_best:
  "(matched_fragments svcs path = [] \<longrightarrow> match_service svcs path = (None, 0))
   \<and> (matched_fragments svcs path \<noteq> [] \<longrightarrow>
        (\<exists>before best after.
           matched_fragments svcs path = before @ best # after
           \<and> (\<forall>b\<in>set before. frag_len b < frag_len best)
           \<and> (\<forall>a\<in>set after. frag_len a \<le> frag_len best)
           \<and> match_service svcs path = (Some (fst best, fst (snd best)), frag_len best)))"
proof -
  have m: "matched_fragments svcs path
             = filter (\<lambda>c. fragment_matches (normalize_file_path path) (snd (snd c)) \<and> 0 < frag_len c)
                 (declared_fragments svcs)"
    by (simp add: matched_fragments_def frag_len_def)
  show ?thesis
    unfolding m match_service_foldl
    by (rule best_match_foldl
          [where good = "\<lambda>c. fragment_matches (normalize_file_path path) (snd (snd c))"
             and len = frag_len and val = "\<lambda>c. (fst c, fst (snd c))"])
qed

lemma declared_fragments_Nil: "declared_fragments [] = []"
  by (simp add: declared_fragments_def)

lemma example_paths:
  "normalize_file_path ''app/api/users.py'' = ''app/api/users.py''"
  "normalize_repo_path ''app/'' = ''app''"
  "normalize_repo_path ''app/api/'' = ''app/api''"
  by code_simp+

lemma app_api_example:
  assumes "repository_paths web = Some [''app/'']" "repository_paths api = Some [''app/api/'']"
  shows "match_service [(w, web), (a, api)] ''app/api/users.py'' = (Some (a, api), 7)"
    and "match_service [(a, api), (w, web)] ''app/api/users.py'' = (Some (a, api), 7)"
  using assms
  by (simp_all add: match_service_def Let_def get_or_def try_repo_path_def example_paths)

text \<open>
  Claim C3 (amended). Among the declared fragments that match the path by one of the three
  strategies and whose normalized form is not empty, taken over all services in
  declaration order, the resolver keeps the service of the first fragment of greatest
  length: every matching fragment before it is strictly shorter and none after it is
  longer. When no such fragment exists the resolver returns nothing. With services
  declaring \<^verbatim>\<open>app/\<close> and \<^verbatim>\<open>app/api/\<close>, in either order, the file
  \<^verbatim>\<open>app/api/users.py\<close> resolves to the service of \<^verbatim>\<open>app/api/\<close>.
\<close>

theorem C3_longest_fragment_wins:
  "(matched_fragments (DeploymentModel.services model) path = []
      \<longrightarrow> get_deployment_context model path = None)
   \<and> (matched_fragments (DeploymentModel.services model) path \<noteq> [] \<longrightarrow>
        (\<exists>before best after.
           matched_fragments (DeploymentModel.services model) path = before @ best # after
           \<and> (\<forall>b\<in>set before. frag_len b < frag_len best)
           \<and> (\<forall>a\<in>set after. frag_len a \<le> frag_len best)
           \<and> get_deployment_context model path
               = Some (deployment_context_for model (fst best) (fst (snd best)))))
   \<and> (repository_paths web = Some [''app/''] \<and> repository_paths api = Some [''app/api/'']
        \<and> (DeploymentModel.services model = [(w, web), (a, api)]
             \<or> DeploymentModel.services model = [(a, api), (w, web)])
      \<longrightarrow> get_deployment_context model ''app/api/users.py''
            = Some (deployment_context_for model a api))"
proof -
  note b = match_service_best [of "DeploymentModel.services model" path]
  have one: "matched_fragments (DeploymentModel.services model) path = []
      \<longrightarrow> get_deployment_context model path = None"
    using b by (simp add: get_deployment_context_def)
  have two: "matched_fragments (DeploymentModel.services model) path \<noteq> [] \<longrightarrow>
        (\<exists>before best after.
           matched_fragments (DeploymentModel.services model) path = before @ best # after
           \<and> (\<forall>b\<in>set before. frag_len b < frag_len best)
           \<and> (\<forall>a\<in>set after. frag_len a \<le> frag_len best)
           \<and> get_deployment_context model path
               = Some (deployment_context_for model (fst best) (fst (snd best))))"
  proof
    assume ne: "matched_fragments (DeploymentModel.services model) path \<noteq> []"
    then have sv: "DeploymentModel.services model \<noteq> []"
      by (auto simp: matched_fragments_def declared_fragments_Nil)
    from b ne obtain before best after where
      d: "matched_fragments (DeploymentModel.services model) path = before @ best # after"
      and lt: "\<forall>b\<in>set before. frag_len b < frag_len best"
      and le: "\<forall>a\<in>set after. frag_len a \<le> frag_len best"
      and r: "match_service (DeploymentModel.services model) path
                = (Some (fst best, fst (snd best)), frag_len best)"
      by blast
    have "get_deployment_context model path
               = Some (deployment_context_for model (fst best) (fst (snd best)))"
      using sv r by (simp add: get_deployment_context_def)
    with d lt le show "\<exists>before best after.
           matched_fragments (DeploymentModel.services model) path = before @ best # after
           \<and> (\<forall>b\<in>set before. frag_len b < frag_len best)
           \<and> (\<forall>a\<in>set after. frag_len a \<le> frag_len best)
           \<and> get_deployment_context model path
               = Some (deployment_context_for model (fst best) (fst (snd best)))"
      by blast
  qed
  have three: "repository_paths web = Some [''app/''] \<and> repository_paths api = Some [''app/api/'']
        \<and> (DeploymentModel.services model = [(w, web), (a, api)]
             \<or> DeploymentModel.services model = [(a, api), (w, web)])
      \<longrightarrow> get_deployment_context model ''app/api/users.py''
            = Some (deployment_context_for model a api)"
    using app_api_example [where web = web and api = api and w = w and a = a]
    by (auto simp: get_deployment_context_def)
  from one two three show ?thesis by (intro conjI)
qed

theorem C3_longest_fragment_wins_witness:
  "matched_fragments
       (DeploymentModel.services (example_model [(''web'', example_service [''app/''])]))
       ''lib/x.py'' = []
   \<and> get_deployment_context (example_model [(''web'', example_service [''app/''])]) ''lib/x.py''
       = None
   \<and> matched_fragments
       (DeploymentModel.services
          (example_model [(''web'', example_service [''app/'']),
                          (''api'', example_service [''app/api/''])]))
       ''app/api/users.py''
       = [(''web'', example_service [''app/''], ''app''),
          (''api'', example_service [''app/api/''], ''app/api'')]
   \<and> (\<exists>before best after.
         [(''web'', example_service [''app/''], ''app''),
          (''api'', example_service [''app/api/''], ''app/api'')] = before @ best # after
         \<and> (\<forall>b\<in>set before. frag_len b < frag_len best)
         \<and> (\<forall>a\<in>set after. frag_len a \<le> frag_len best)
         \<and> get_deployment_context
              (example_model [(''web'', example_service [''app/'']),
                              (''api'', example_service [''app/api/''])])
              ''app/api/users.py''
             = Some (deployment_context_for
                       (example_model [(''web'', example_service [''app/'']),
                                       (''api'', example_service [''app/api/''])])
                       (fst best) (fst (snd best))))
   \<and> get_deployment_context
        (example_model [(''web'', example_service [''app/'']),
                        (''api'', example_service [''app/api/''])])
        ''app/api/users.py''
       = Some (deployment_context_for
                 (example_model [(''web'', example_service [''app/'']),
                                 (''api'', example_service [''app/api/''])])
                 ''api'' (example_service [''app/api/'']))"
proof -
  let ?M1 = "example_model [(''web'', example_service [''app/''])]"
  let ?M2 = "example_model [(''web'', example_service [''app/'']),
                            (''api'', example_service [''app/api/''])]"
  have h1: "matched_fragments (DeploymentModel.services ?M1) ''lib/x.py'' = []"
    by code_simp
  have h2: "matched_fragments (DeploymentModel.services ?M2) ''app/api/users.py''
       = [(''web'', example_service [''app/''], ''app''),
          (''api'', example_service [''app/api/''], ''app/api'')]"
    by code_simp
  have h3: "repository_paths (example_service [''app/'']) = Some [''app/'']
          \<and> repository_paths (example_service [''app/api/'']) = Some [''app/api/'']
          \<and> (DeploymentModel.services ?M2
                = [(''web'', example_service [''app/'']), (''api'', example_service [''app/api/''])]
             \<or> DeploymentModel.services ?M2
                = [(''api'', example_service [''app/api/'']), (''web'', example_service [''app/''])])"
    by (simp add: example_service_def example_model_def)
  note t1 = C3_longest_fragment_wins [where model = ?M1 and path = "''lib/x.py''"]
  note t2 = C3_longest_fragment_wins [where model = ?M2 and path = "''app/api/users.py''"
              and web = "example_service [''app/'']" and api = "example_service [''app/api/'']"
              and w = "''web''" and a = "''api''"]
  have a: "get_deployment_context ?M1 ''lib/x.py'' = None"
    using t1 [THEN conjunct1] h1 by (rule mp)
  have ne: "matched_fragments (DeploymentModel.services ?M2) ''app/api/users.py'' \<noteq> []"
    unfolding h2 by simp
  have b: "\<exists>before best after.
         [(''web'', example_service [''app/''], ''app''),
          (''api'', example_service [''app/api/''], ''app/api'')] = before @ best # after
         \<and> (\<forall>b\<in>set before. frag_len b < frag_len best)
         \<and> (\<forall>a\<in>set after. frag_len a \<le> frag_len best)
         \<and> get_deployment_context ?M2 ''app/api/users.py''
             = Some (deployment_context_for ?M2 (fst best) (fst (snd best)))"
    using mp [OF t2 [THEN conjunct2, THEN conjunct1] ne] unfolding h2 .
  have c: "get_deployment_context ?M2 ''app/api/users.py''
            = Some (deployment_context_for ?M2 ''api'' (example_service [''app/api/'']))"
    using t2 [THEN conjunct2, THEN conjunct2] h3 by (rule mp)
  from h1 a h2 b c show ?thesis by (intro conjI)
qed

text \<open>
  The claim as stated fails for a fragment that normalizes to the empty string. The
  repository path \<^verbatim>\<open>/\<close> normalizes to the empty fragment, which matches the path
  \<^verbatim>\<open>/a.py\<close> by the first strategy and is the only, so the longest, matching fragment of
  the model; the resolver returns nothing.
\<close>

theorem C3_empty_fragment_counterexample:
  "declared_fragments [(''root'', example_service [''/''])]
     = [(''root'', example_service [''/''], [])]
   \<and> prefix ([] @ ''/'') (normalize_file_path ''/a.py'')
   \<and> fragment_matches (normalize_file_path ''/a.py'') []
   \<and> get_deployment_context (example_model [(''root'', example_service [''/''])]) ''/a.py'' = None"
  by code_simp

lemma service_auth_method_none:
  "\<forall>c\<in>set comms. from_service c \<noteq> Some nm \<Longrightarrow> service_auth_method comms nm = None"
  by (induction comms) simp_all

lemma service_auth_method_first:
  "\<forall>b\<in>set before. from_service b \<noteq> Some nm \<Longrightarrow> from_service c = Some nm
     \<Longrightarrow> service_auth_method (before @ c # after) nm = CommunicationProtocol.auth_method c"
  by (induction before) simp_all

text \<open>
  Claim C6 (amended). For the matched service the authentication method is the
  \<^verbatim>\<open>auth_method\<close> of the first communication record whose \<^verbatim>\<open>from_service\<close> is that
  service, when that value is usable (present and not empty); when no record names the
  service, or the first one that does has no usable \<^verbatim>\<open>auth_method\<close>, it is the model's
  \<^verbatim>\<open>user_authentication_method\<close>. Later records of the service are not consulted.
\<close>

theorem C6_auth_method_precedence:
  assumes "get_deployment_context model path = Some ctx"
  shows "\<exists>nm info. fst (match_service (DeploymentModel.services model) path) = Some (nm, info)
      \<and> ((\<forall>c\<in>set (communications model). from_service c \<noteq> Some nm)
           \<longrightarrow> authentication_method ctx = user_authentication_method model)
      \<and> (\<forall>before c after.
            communications model = before @ c # after
            \<and> (\<forall>b\<in>set before. from_service b \<noteq> Some nm)
            \<and> from_service c = Some nm
           \<longrightarrow> authentication_method ctx
                 = (case CommunicationProtocol.auth_method c of
                      None \<Rightarrow> user_authentication_method model
                    | Some m \<Rightarrow> if m = [] then user_authentication_method model else Some m))"
proof -
  from assms obtain nm info where
    m: "fst (match_service (DeploymentModel.services model) path) = Some (nm, info)"
    and c: "ctx = deployment_context_for model nm info"
    by (auto simp: get_deployment_context_def split: if_splits option.splits)
  have a: "authentication_method ctx = find_auth_method model nm"
    by (simp add: c deployment_context_for_def)
  have one: "(\<forall>c\<in>set (communications model). from_service c \<noteq> Some nm)
           \<longrightarrow> authentication_method ctx = user_authentication_method model"
    by (simp add: a find_auth_method_def service_auth_method_none truthy_def)
  have two: "\<forall>before c after.
            communications model = before @ c # after
            \<and> (\<forall>b\<in>set before. from_service b \<noteq> Some nm)
            \<and> from_service c = Some nm
           \<longrightarrow> authentication_method ctx
                 = (case CommunicationProtocol.auth_method c of
                      None \<Rightarrow> user_authentication_method model
                    | Some m \<Rightarrow> if m = [] then user_authentication_method model else Some m)"
  proof (intro allI impI, elim conjE)
    fix before c after
    assume "communications model = before @ c # after"
      and "\<forall>b\<in>set before. from_service b \<noteq> Some nm" and "from_service c = Some nm"
    then have "service_auth_method (communications model) nm = CommunicationProtocol.auth_method c"
      by (simp add: service_auth_method_first)
    then show "authentication_method ctx
                 = (case CommunicationProtocol.auth_method c of
                      None \<Rightarrow> user_authentication_method model
                    | Some m \<Rightarrow> if m = [] then user_authentication_method model else Some m)"
      by (simp add: a find_auth_method_def truthy_def Let_def split: option.splits)
  qed
  from m one two show ?thesis by blast
qed

theorem C6_auth_method_precedence_witness:
  "get_deployment_context (example_model [(''api'', example_service [''app/''])]) ''app/x.py''
     = Some (deployment_context_for (example_model [(''api'', example_service [''app/''])])
               ''api'' (example_service [''app/'']))
   \<and> authentication_method
        (deployment_context_for (example_model [(''api'', example_service [''app/''])])
           ''api'' (example_service [''app/''])) = Some ''IAM Role''
   \<and> get_deployment_context (example_model [(''web'', example_service [''app/''])]) ''app/x.py''
     = Some (deployment_context_for (example_model [(''web'', example_service [''app/''])])
               ''web'' (example_service [''app/'']))
   \<and> authentication_method
        (deployment_context_for (example_model [(''web'', example_service [''app/''])])
           ''web'' (example_service [''app/''])) = Some ''OAuth2 JWT''
   \<and> get_deployment_context (example_model [(''db'', example_service [''app/''])]) ''app/x.py''
     = Some (deployment_context_for (example_model [(''db'', example_service [''app/''])])
               ''db'' (example_service [''app/'']))
   \<and> authentication_method
        (deployment_context_for (example_model [(''db'', example_service [''app/''])])
           ''db'' (example_service [''app/''])) = Some ''OAuth2 JWT''
   \<and> get_deployment_context shadowed_auth_model ''app/x.py''
     = Some (deployment_context_for shadowed_auth_model ''web'' (example_service [''app/'']))
   \<and> authentication_method
        (deployment_context_for shadowed_auth_model ''web'' (example_service [''app/'']))
       = Some ''OAuth2 JWT''"
proof -
  let ?S = "example_service [''app/'']"
  let ?cw = "\<lparr> from_service = Some ''web'', auth_method = Some [] \<rparr>"
  let ?ca = "\<lparr> from_service = Some ''api'', auth_method = Some ''IAM Role'' \<rparr>"
  let ?cb = "\<lparr> from_service = Some ''api'', auth_method = Some ''mTLS'' \<rparr>"
  have comms: "communications (example_model svcs) = [?cw, ?ca, ?cb]" for svcs
    by (simp add: example_model_def)
  have glob: "user_authentication_method (example_model svcs) = Some ''OAuth2 JWT''" for svcs
    by (simp add: example_model_def)
  have ha: "get_deployment_context (example_model [(''api'', ?S)]) ''app/x.py''
     = Some (deployment_context_for (example_model [(''api'', ?S)]) ''api'' ?S)"
    by code_simp
  have ma: "fst (match_service (DeploymentModel.services (example_model [(''api'', ?S)])) ''app/x.py'')
     = Some (''api'', ?S)"
    by code_simp
  have hw: "get_deployment_context (example_model [(''web'', ?S)]) ''app/x.py''
     = Some (deployment_context_for (example_model [(''web'', ?S)]) ''web'' ?S)"
    by code_simp
  have mw: "fst (match_service (DeploymentModel.services (example_model [(''web'', ?S)])) ''app/x.py'')
     = Some (''web'', ?S)"
    by code_simp
  have hd: "get_deployment_context (example_model [(''db'', ?S)]) ''app/x.py''
     = Some (deployment_context_for (example_model [(''db'', ?S)]) ''db'' ?S)"
    by code_simp
  have md: "fst (match_service (DeploymentModel.services (example_model [(''db'', ?S)])) ''app/x.py'')
     = Some (''db'', ?S)"
    by code_simp
  have a: "authentication_method (deployment_context_for (example_model [(''api'', ?S)]) ''api'' ?S)
             = Some ''IAM Role''"
  proof -
    from C6_auth_method_precedence [OF ha] ma have
      "\<forall>before c after.
         communications (example_model [(''api'', ?S)]) = before @ c # after
         \<and> (\<forall>b\<in>set before. from_service b \<noteq> Some ''api'')
         \<and> from_service c = Some ''api''
         \<longrightarrow> authentication_method (deployment_context_for (example_model [(''api'', ?S)]) ''api'' ?S)
              = (case CommunicationProtocol.auth_method c of
                   None \<Rightarrow> user_authentication_method (example_model [(''api'', ?S)])
                 | Some m \<Rightarrow> if m = [] then user_authentication_method (example_model [(''api'', ?S)])
                             else Some m)"
      by auto
    from this [rule_format, of "[?cw]" ?ca "[?cb]"] show ?thesis
      by (simp add: comms)
  qed
  have w: "authentication_method (deployment_context_for (example_model [(''web'', ?S)]) ''web'' ?S)
             = Some ''OAuth2 JWT''"
  proof -
    from C6_auth_method_precedence [OF hw] mw have
      "\<forall>before c after.
         communications (example_model [(''web'', ?S)]) = before @ c # after
         \<and> (\<forall>b\<in>set before. from_service b \<noteq> Some ''web'')
         \<and> from_service c = Some ''web''
         \<longrightarrow> authentication_method (deployment_context_for (example_model [(''web'', ?S)]) ''web'' ?S)
              = (case CommunicationProtocol.auth_method c of
                   None \<Rightarrow> user_authentication_method (example_model [(''web'', ?S)])
                 | Some m \<Rightarrow> if m = [] then user_authentication_method (example_model [(''web'', ?S)])
                             else Some m)"
      by auto
    from this [rule_format, of "[]" ?cw "[?ca, ?cb]"] show ?thesis
      by (simp add: comms glob)
  qed
  have d: "authentication_method (deployment_context_for (example_model [(''db'', ?S)]) ''db'' ?S)
             = Some ''OAuth2 JWT''"
  proof -
    from C6_auth_method_precedence [OF hd] md have
      "(\<forall>c\<in>set (communications (example_model [(''db'', ?S)])). from_service c \<noteq> Some ''db'')
         \<longrightarrow> authentication_method (deployment_context_for (example_model [(''db'', ?S)]) ''db'' ?S)
              = user_authentication_method (example_model [(''db'', ?S)])"
      by auto
    then show ?thesis by (simp add: comms glob)
  qed
  have hs: "get_deployment_context shadowed_auth_model ''app/x.py''
     = Some (deployment_context_for shadowed_auth_model ''web'' ?S)"
    by code_simp
  have ms: "fst (match_service (DeploymentModel.services shadowed_auth_model) ''app/x.py'')
     = Some (''web'', ?S)"
    by code_simp
  have cs: "communications shadowed_auth_model
              = [] @ ?cw # [\<lparr> from_service = Some ''web'', auth_method = Some ''mTLS'' \<rparr>]"
    by (simp add: shadowed_auth_model_def)
  have gs: "user_authentication_method shadowed_auth_model = Some ''OAuth2 JWT''"
    by (simp add: shadowed_auth_model_def example_model_def)
  have sh: "authentication_method (deployment_context_for shadowed_auth_model ''web'' ?S)
             = Some ''OAuth2 JWT''"
  proof -
    from C6_auth_method_precedence [OF hs] ms have
      "\<forall>before c after.
         communications shadowed_auth_model = before @ c # after
         \<and> (\<forall>b\<in>set before. from_service b \<noteq> Some ''web'')
         \<and> from_service c = Some ''web''
         \<longrightarrow> authentication_method (deployment_context_for shadowed_auth_model ''web'' ?S)
              = (case CommunicationProtocol.auth_method c of
                   None \<Rightarrow> user_authentication_method shadowed_auth_model
                 | Some m \<Rightarrow> if m = [] then user_authentication_method shadowed_auth_model
                             else Some m)"
      by auto
    from this [rule_format, of "[]" ?cw "[\<lparr> from_service = Some ''web'', auth_method = Some ''mTLS'' \<rparr>]"]
      cs show ?thesis
      by (simp add: gs)
  qed
  from ha a hw w hd d hs sh show ?thesis by (intro conjI)
qed

text \<open>
  The claim as stated fails when the first communication of the service has an empty
  \<^verbatim>\<open>auth_method\<close> and a later one a usable one: a record of the service with a usable
  method exists, and the resolver still answers the user's method.
\<close>

theorem C6_later_record_counterexample:
  "communications shadowed_auth_model
     = [\<lparr> from_service = Some ''web'', auth_method = Some [] \<rparr>,
        \<lparr> from_service = Some ''web'', auth_method = Some ''mTLS'' \<rparr>]
   \<and> user_authentication_method shadowed_auth_model = Some ''OAuth2 JWT''
   \<and> fst (match_service (DeploymentModel.services shadowed_auth_model) ''app/x.py'')
       = Some (''web'', example_service [''app/''])
   \<and> get_deployment_context shadowed_auth_model ''app/x.py''
       = Some (deployment_context_for shadowed_auth_model ''web'' (example_service [''app/'']))
   \<and> authentication_method
         (deployment_context_for shadowed_auth_model ''web'' (example_service [''app/'']))
       = Some ''OAuth2 JWT''"
  by code_simp

end
